theory Spec2Isabelle
  imports Main
begin

section \<open>JavaScript strings\<close>

text \<open>
  An identifier of the catalogue is a character list. The naming convention uses ASCII
  letters, digits and underscores; on that range \<open>toUpperCase\<close> below is
  \<^verbatim>\<open>String.prototype.toUpperCase\<close>. Every other character is left as it is.

  Free text, that is the description of a dataset and the query the user types, is a
  sequence of UTF-16 code units, which are numbers; \<open>units\<close> gives the code units of an
  identifier. The lower-casing of free text, \<^verbatim>\<open>String.prototype.toLowerCase\<close> with the
  case tables of Unicode, is a built-in of the language: the filter takes it as the
  parameter \<open>toLowerCase\<close>, and the theorems about the filter hold for every function.
\<close>

type_synonym codeUnit = nat

type_synonym jsText = "codeUnit list"

definition units :: "string \<Rightarrow> jsText" where
  "units s = map of_char s"

definition toUpperChar :: "char \<Rightarrow> char" where
  "toUpperChar c =
     (let n = (of_char c :: nat) in if 97 \<le> n \<and> n \<le> 122 then char_of (n - 32) else c)"

definition toUpperCase :: "string \<Rightarrow> string" where
  "toUpperCase s = map toUpperChar s"

text \<open>The character class \<^verbatim>\<open>\d\<close> of a regular expression: the ten ASCII digits.\<close>

definition isDigit :: "char \<Rightarrow> bool" where
  "isDigit c = (let n = (of_char c :: nat) in 48 \<le> n \<and> n \<le> 57)"

text \<open>
  \<^verbatim>\<open>s.startsWith(p)\<close> and \<^verbatim>\<open>s.includes(p)\<close>, on identifiers and on free text alike:
  both compare the strings unit by unit.
\<close>

fun startsWith :: "'a list \<Rightarrow> 'a list \<Rightarrow> bool" where
  "startsWith s [] = True"
| "startsWith [] (p # ps) = False"
| "startsWith (c # cs) (p # ps) = (c = p \<and> startsWith cs ps)"

fun includesStr :: "'a list \<Rightarrow> 'a list \<Rightarrow> bool" where
  "includesStr [] p = (p = [])"
| "includesStr (c # cs) p = (startsWith (c # cs) p \<or> includesStr cs p)"

text \<open>
  \<^verbatim>\<open>name.match(/_(\d{4})$/)\<close>, giving the first capture group: the engine tries every
  start position from the left, and at each one needs an underscore, four digits and the
  end of the input.
\<close>

fun yearMatch :: "string \<Rightarrow> string option" where
  "yearMatch [] = None"
| "yearMatch (c # cs) =
     (if c = CHR ''_'' \<and> length cs = 4 \<and> list_all isDigit cs then Some cs
      else yearMatch cs)"

text \<open>\<^verbatim>\<open>s.replace(/^(g|pg)_/, '')\<close>: the alternatives are tried in order at position 0 only.\<close>

definition stripTypePrefix :: "string \<Rightarrow> string" where
  "stripTypePrefix s =
     (if startsWith s ''g_'' then drop 2 s
      else if startsWith s ''pg_'' then drop 3 s
      else s)"

text \<open>\<^verbatim>\<open>s.split('_')\<close>: the empty string splits into one empty word.\<close>

fun split :: "char \<Rightarrow> string \<Rightarrow> string list" where
  "split d [] = [[]]"
| "split d (c # cs) =
     (if c = d then [] # split d cs
      else (case split d cs of [] \<Rightarrow> [[c]] | w # ws \<Rightarrow> (c # w) # ws))"

text \<open>\<^verbatim>\<open>word.charAt(0).toUpperCase() + word.slice(1)\<close>.\<close>

definition capitalize :: "string \<Rightarrow> string" where
  "capitalize word = toUpperCase (take 1 word) @ drop 1 word"

text \<open>\<^verbatim>\<open>words.join(sep)\<close>.\<close>

fun join :: "string \<Rightarrow> string list \<Rightarrow> string" where
  "join sep [] = []"
| "join sep [w] = w"
| "join sep (w # ws) = w @ sep @ join sep ws"

text \<open>\<^verbatim>\<open>s.replace(/_/g, ' ')\<close>.\<close>

definition replaceUnderscores :: "string \<Rightarrow> string" where
  "replaceUnderscores s = map (\<lambda>c. if c = CHR ''_'' then CHR '' '' else c) s"

section \<open>Descriptors and classified datasets\<close>

text \<open>
  A descriptor is an entry of links.json: the fields the component reads are
  \<open>table_name\<close>, \<open>description\<close> and \<open>shareable_link\<close>, all strings; the description
  is free text. A classified
  dataset is the descriptor extended by \<^verbatim>\<open>{...item, displayName, type, category,
  contentType, year}\<close>; \<open>null\<close> is \<open>None\<close>. The two values \<^verbatim>\<open>'granted'\<close> and
  \<^verbatim>\<open>'pregrant'\<close> of \<open>type\<close> are the constructors of \<open>patentType\<close>.
\<close>

datatype patentType = Granted | Pregrant

record descriptor =
  table_name :: string
  description :: jsText
  shareable_link :: string

record classified = descriptor +
  displayName :: string
  type :: patentType
  category :: string
  contentType :: "string option"
  year :: "string option"

subsection \<open>The classifier of the component (PatentDownloadInterface.js)\<close>

definition categorizeItem :: "descriptor \<Rightarrow> classified" where
  "categorizeItem item =
     (let name = table_name item;
          contentType =
            (if includesStr name ''brf_sum_text_'' then Some ''Brief Summary''
             else if includesStr name ''claims_'' then Some ''Claims''
             else if includesStr name ''detail_desc_text_'' then Some ''Detailed Description''
             else if includesStr name ''draw_desc_text_'' then Some ''Drawing Description''
             else if includesStr name ''abstract'' then Some ''Abstract''
             else None);
          category =
            (if contentType \<noteq> None then ''Content''
             else if includesStr name ''inventor'' \<or> includesStr name ''attorney''
                     \<or> includesStr name ''lawyer'' \<or> includesStr name ''assignee''
                     \<or> includesStr name ''applicant'' \<or> includesStr name ''examiner''
               then ''People''
             else if includesStr name ''location'' \<or> includesStr name ''geography''
               then ''Geography''
             else if includesStr name ''cpc'' \<or> includesStr name ''uspc''
                     \<or> includesStr name ''ipc'' \<or> includesStr name ''wipo''
               then ''Classification''
             else if includesStr name ''citation'' \<or> includesStr name ''reference''
               then ''Citations''
             else if includesStr name ''gov_interest'' \<or> includesStr name ''federal''
               then ''Government''
             else if includesStr name ''priority'' \<or> includesStr name ''rel_''
                     \<or> includesStr name ''term'' \<or> includesStr name ''pct''
               then ''Legal''
             else if includesStr name ''persistent'' \<or> includesStr name ''crosswalk''
                     \<or> includesStr name ''granted_pgpubs''
               then ''Mapping''
             else if includesStr name ''figures'' \<or> includesStr name ''botanic''
               then ''Other Documentation''
             else if includesStr name ''patent'' \<or> includesStr name ''application''
               then ''General''
             else ''Other'');
          type = (if startsWith name ''pg_'' then Pregrant else Granted);
          year = (if contentType \<noteq> None then yearMatch name else None);
          displayName =
            replaceUnderscores
              (join '' '' (map capitalize (split CHR ''_'' (stripTypePrefix (table_name item)))))
      in \<lparr> table_name = table_name item, description = description item,
           shareable_link = shareable_link item,
           displayName = displayName, type = type, category = category,
           contentType = contentType, year = year \<rparr>)"

subsection \<open>The classifier exported by dataProcessor.js\<close>

text \<open>
  The module dataProcessor.js exports a function of the same name. Its chain of
  functional areas ends after the rule for \<open>Other Documentation\<close> with an unconditional
  \<open>General\<close>.
\<close>

definition dataProcessor_categorizeItem :: "descriptor \<Rightarrow> classified" where
  "dataProcessor_categorizeItem item =
     (let name = table_name item;
          contentType =
            (if includesStr name ''brf_sum_text_'' then Some ''Brief Summary''
             else if includesStr name ''claims_'' then Some ''Claims''
             else if includesStr name ''detail_desc_text_'' then Some ''Detailed Description''
             else if includesStr name ''draw_desc_text_'' then Some ''Drawing Description''
             else if includesStr name ''abstract'' then Some ''Abstract''
             else None);
          category =
            (if contentType \<noteq> None then ''Content''
             else if includesStr name ''inventor'' \<or> includesStr name ''attorney''
                     \<or> includesStr name ''lawyer'' \<or> includesStr name ''assignee''
                     \<or> includesStr name ''applicant'' \<or> includesStr name ''examiner''
               then ''People''
             else if includesStr name ''location'' \<or> includesStr name ''geography''
               then ''Geography''
             else if includesStr name ''cpc'' \<or> includesStr name ''uspc''
                     \<or> includesStr name ''ipc'' \<or> includesStr name ''wipo''
               then ''Classification''
             else if includesStr name ''citation'' \<or> includesStr name ''reference''
               then ''Citations''
             else if includesStr name ''gov_interest'' \<or> includesStr name ''federal''
               then ''Government''
             else if includesStr name ''priority'' \<or> includesStr name ''rel_''
                     \<or> includesStr name ''term'' \<or> includesStr name ''pct''
               then ''Legal''
             else if includesStr name ''persistent'' \<or> includesStr name ''crosswalk''
                     \<or> includesStr name ''granted_pgpubs''
               then ''Mapping''
             else if includesStr name ''figures'' \<or> includesStr name ''botanic''
               then ''Other Documentation''
             else ''General'');
          type = (if startsWith name ''pg_'' then Pregrant else Granted);
          year = (if contentType \<noteq> None then yearMatch name else None);
          displayName =
            replaceUnderscores
              (join '' '' (map capitalize (split CHR ''_'' (stripTypePrefix (table_name item)))))
      in \<lparr> table_name = table_name item, description = description item,
           shareable_link = shareable_link item,
           displayName = displayName, type = type, category = category,
           contentType = contentType, year = year \<rparr>)"

subsection \<open>The rule tables of the specification\<close>

text \<open>
  The specification gives the classifier as two ordered tables, read top to bottom with
  the first match winning. They are written down here from its words, to be compared
  with the conditionals of the code.
\<close>

definition spec_contentTypeTable :: "(string \<times> string) list" where
  "spec_contentTypeTable =
     [(''brf_sum_text_'', ''Brief Summary''),
      (''claims_'', ''Claims''),
      (''detail_desc_text_'', ''Detailed Description''),
      (''draw_desc_text_'', ''Drawing Description''),
      (''abstract'', ''Abstract'')]"

definition spec_functionalRules :: "(string list \<times> string) list" where
  "spec_functionalRules =
     [([''inventor'', ''attorney'', ''lawyer'', ''assignee'', ''applicant'', ''examiner''],
         ''People''),
      ([''location'', ''geography''], ''Geography''),
      ([''cpc'', ''uspc'', ''ipc'', ''wipo''], ''Classification''),
      ([''citation'', ''reference''], ''Citations''),
      ([''gov_interest'', ''federal''], ''Government''),
      ([''priority'', ''rel_'', ''term'', ''pct''], ''Legal''),
      ([''persistent'', ''crosswalk'', ''granted_pgpubs''], ''Mapping''),
      ([''figures'', ''botanic''], ''Other Documentation'')]"

definition spec_containsAny :: "string \<Rightarrow> string list \<Rightarrow> bool" where
  "spec_containsAny name ps = list_ex (includesStr name) ps"

definition spec_firstContentType :: "string \<Rightarrow> string option" where
  "spec_firstContentType name =
     map_option snd (find (\<lambda>(p, l). includesStr name p) spec_contentTypeTable)"

definition spec_firstFunctionalArea :: "string \<Rightarrow> string option" where
  "spec_firstFunctionalArea name =
     map_option snd (find (\<lambda>(ps, l). spec_containsAny name ps) spec_functionalRules)"

section \<open>Display names\<close>

text \<open>
  A regular expression built with the flag \<^verbatim>\<open>i\<close> compares characters after mapping
  both to upper case. \<open>matchIgnoreCase s p\<close> holds when the pattern \<open>p\<close>, a plain word,
  matches at the start of \<open>s\<close>.
\<close>

fun matchIgnoreCase :: "string \<Rightarrow> string \<Rightarrow> bool" where
  "matchIgnoreCase s [] = True"
| "matchIgnoreCase [] (p # ps) = False"
| "matchIgnoreCase (c # cs) (p # ps) = (toUpperChar c = toUpperChar p \<and> matchIgnoreCase cs ps)"

text \<open>
  \<^verbatim>\<open>s.replace(new RegExp(pat, 'i'), rep)\<close>: without the flag \<^verbatim>\<open>g\<close> only the leftmost
  match is replaced.
\<close>

fun replaceIgnoreCase :: "string \<Rightarrow> string \<Rightarrow> string \<Rightarrow> string" where
  "replaceIgnoreCase pat rep [] = (if matchIgnoreCase [] pat then rep else [])"
| "replaceIgnoreCase pat rep (c # cs) =
     (if matchIgnoreCase (c # cs) pat then rep @ drop (length pat) (c # cs)
      else c # replaceIgnoreCase pat rep cs)"

definition abbreviations :: "string list" where
  "abbreviations = [''PCT'', ''WIPO'', ''CPC'', ''IPC'', ''USPC'', ''US'']"

definition formatDisplayName :: "string \<Rightarrow> string" where
  "formatDisplayName name =
     fold (\<lambda>abbr displayName. replaceIgnoreCase abbr abbr displayName) abbreviations name"

text \<open>The label a file card shows: \<^verbatim>\<open>formatDisplayName(file.displayName)\<close>.\<close>

definition cardLabel :: "descriptor \<Rightarrow> string" where
  "cardLabel item = formatDisplayName (displayName (categorizeItem item))"

subsection \<open>The formatter in the words of the specification\<close>

definition spec_stripPrefix :: "string \<Rightarrow> string" where
  "spec_stripPrefix s =
     (if take 2 s = ''g_'' then drop 2 s else if take 3 s = ''pg_'' then drop 3 s else s)"

definition spec_occursAt :: "string \<Rightarrow> string \<Rightarrow> nat \<Rightarrow> bool" where
  "spec_occursAt a s i =
     (i + length a \<le> length s \<and> toUpperCase (take (length a) (drop i s)) = toUpperCase a)"

definition spec_replaceFirst :: "string \<Rightarrow> string \<Rightarrow> string" where
  "spec_replaceFirst a s =
     (case find (spec_occursAt a s) [0..<Suc (length s)] of
        None \<Rightarrow> s
      | Some i \<Rightarrow> take i s @ a @ drop (i + length a) s)"

definition spec_acronyms :: "string list" where
  "spec_acronyms = [''PCT'', ''WIPO'', ''CPC'', ''IPC'', ''USPC'', ''US'']"

definition spec_fixAcronyms :: "string \<Rightarrow> string" where
  "spec_fixAcronyms s = foldl (\<lambda>t a. spec_replaceFirst a t) s spec_acronyms"

section \<open>Objects and the taxonomy\<close>

text \<open>
  A JavaScript object with string keys is an association list in insertion order, the
  order in which \<^verbatim>\<open>Object.keys\<close> lists the properties (no category label is an integer
  index). Its keys are distinct. A loop \<^verbatim>\<open>Object.keys(o).forEach(k => ... o[k] ...)\<close>
  visits the entries of the list.
\<close>

type_synonym 'v obj = "(string \<times> 'v) list"

definition obj_get :: "'v obj \<Rightarrow> string \<Rightarrow> 'v option" where
  "obj_get obj k = map_of obj k"

fun obj_set :: "'v obj \<Rightarrow> string \<Rightarrow> 'v \<Rightarrow> 'v obj" where
  "obj_set [] k v = [(k, v)]"
| "obj_set ((k', v') # rest) k v =
     (if k' = k then (k', v) # rest else (k', v') # obj_set rest k v)"

definition obj_keys :: "'v obj \<Rightarrow> string list" where
  "obj_keys obj = map fst obj"

text \<open>
  A category holds an array of items, or the object that \<^verbatim>\<open>organizeByDisambiguation\<close>
  returns: \<open>disambiguated\<close> and \<open>raw\<close> are arrays, \<open>main\<close> is created on first use and
  may be missing.
\<close>

record organized =
  disambiguated :: "classified list"
  raw :: "classified list"
  main :: "classified list option"

datatype bucket = Flat "classified list" | Grouped organized

record taxonomy =
  granted :: "bucket obj"
  pregrant :: "bucket obj"

fun tabOf :: "taxonomy \<Rightarrow> patentType \<Rightarrow> bucket obj" where
  "tabOf t Granted = granted t"
| "tabOf t Pregrant = pregrant t"

fun setTab :: "taxonomy \<Rightarrow> patentType \<Rightarrow> bucket obj \<Rightarrow> taxonomy" where
  "setTab t Granted tab = t\<lparr>granted := tab\<rparr>"
| "setTab t Pregrant tab = t\<lparr>pregrant := tab\<rparr>"

subsection \<open>organizeByDisambiguation\<close>

definition organizeStep :: "classified \<Rightarrow> organized \<Rightarrow> organized" where
  "organizeStep item result =
     (if includesStr (table_name item) ''_not_disambiguated''
        then result\<lparr>raw := raw result @ [item]\<rparr>
      else if includesStr (table_name item) ''_disambiguated''
        then result\<lparr>disambiguated := disambiguated result @ [item]\<rparr>
      else result\<lparr>main :=
             Some ((case main result of None \<Rightarrow> [] | Some xs \<Rightarrow> xs) @ [item])\<rparr>)"

definition organizeByDisambiguation :: "classified list \<Rightarrow> organized" where
  "organizeByDisambiguation items =
     fold organizeStep items \<lparr>disambiguated = [], raw = [], main = None\<rparr>"

subsection \<open>processData\<close>

definition essentialFiles :: "string list" where
  "essentialFiles =
     [''g_assignee_disambiguated'', ''g_inventor_disambiguated'', ''g_cpc_at_issue'',
      ''g_location_disambiguated'', ''g_us_patent_citation'', ''g_application'',
      ''g_patent'', ''pg_assignee_disambiguated'', ''pg_inventor_disambiguated'',
      ''pg_cpc_at_issue'', ''pg_location_disambiguated'', ''pg_published_application'']"

text \<open>
  \<^verbatim>\<open>tab[k].push(item)\<close>. The call raises a TypeError when \<^verbatim>\<open>tab[k]\<close> is undefined or
  is not an array; that is the result \<open>None\<close>. In \<open>processItem\<close> the test
  \<^verbatim>\<open>!result[item.type][item.category]\<close> holds when the key is missing; the labels of
  the classifier are not names of inherited properties of an object.
\<close>

definition pushItem :: "bucket obj \<Rightarrow> string \<Rightarrow> classified \<Rightarrow> bucket obj option" where
  "pushItem tab k item =
     (case obj_get tab k of
        Some (Flat xs) \<Rightarrow> Some (obj_set tab k (Flat (xs @ [item])))
      | _ \<Rightarrow> None)"

definition processItem :: "taxonomy \<Rightarrow> classified \<Rightarrow> taxonomy option" where
  "processItem result item =
     (let isEssential = List.member essentialFiles (table_name item);
          tab = tabOf result (type item);
          tab1 = (if obj_get tab (category item) = None
                  then obj_set tab (category item) (Flat []) else tab)
      in case pushItem tab1 (category item) item of
           None \<Rightarrow> None
         | Some tab2 \<Rightarrow>
             (case (if isEssential then pushItem tab2 ''Essentials'' item else Some tab2) of
                None \<Rightarrow> None
              | Some tab3 \<Rightarrow> Some (setTab result (type item) tab3)))"

fun forEachM :: "('s \<Rightarrow> 'a \<Rightarrow> 's option) \<Rightarrow> 'a list \<Rightarrow> 's \<Rightarrow> 's option" where
  "forEachM f [] s = Some s"
| "forEachM f (x # xs) s = (case f s x of None \<Rightarrow> None | Some s' \<Rightarrow> forEachM f xs s')"

definition organizeCategory :: "bucket obj \<Rightarrow> string \<Rightarrow> bucket obj" where
  "organizeCategory tab cat =
     (case obj_get tab cat of
        Some (Flat xs) \<Rightarrow>
          if length xs > 0 then
            (let organized = organizeByDisambiguation xs
             in if length (disambiguated organized) > 0 \<or> length (raw organized) > 0
                then obj_set tab cat (Grouped organized) else tab)
          else tab
      | _ \<Rightarrow> tab)"

definition organizeTab :: "bucket obj \<Rightarrow> bucket obj" where
  "organizeTab tab = fold (\<lambda>cat t. organizeCategory t cat) [''People'', ''Geography''] tab"

definition processData :: "descriptor list \<Rightarrow> taxonomy option" where
  "processData rawData =
     (let categorizedItems = map categorizeItem rawData
      in case forEachM processItem categorizedItems
                \<lparr>granted = [(''Essentials'', Flat [])], pregrant = [(''Essentials'', Flat [])]\<rparr>
         of None \<Rightarrow> None
          | Some result \<Rightarrow>
              Some (fold (\<lambda>type r. setTab r type (organizeTab (tabOf r type)))
                      [Granted, Pregrant] result))"

subsection \<open>Facets\<close>

text \<open>
  A \<^verbatim>\<open>Set\<close> of strings, listed in insertion order. A string is truthy when it is not
  empty. \<^verbatim>\<open>Number\<close> reads a string of decimal digits as its value; \<open>toNumber\<close> is
  that value, and stands for \<^verbatim>\<open>Number\<close> on such strings only. In
  \<open>getYearsForContentType\<close> the parameter \<^verbatim>\<open>contentType\<close> of the code is
  \<open>contentTypeSel\<close>, and the result \<open>None\<close> is the TypeError of \<^verbatim>\<open>forEach\<close> on a
  Content bucket that is not an array.
\<close>

definition setAdd :: "string list \<Rightarrow> string \<Rightarrow> string list" where
  "setAdd xs x = (if List.member xs x then xs else xs @ [x])"

definition digitValue :: "char \<Rightarrow> nat" where
  "digitValue c = of_char c - 48"

definition toNumber :: "string \<Rightarrow> int" where
  "toNumber s = int (foldl (\<lambda>n c. 10 * n + digitValue c) 0 s)"

text \<open>
  \<^verbatim>\<open>Array.prototype.sort\<close> with a comparison function is stable. With a comparison that
  is a consistent ordering, as the two below are on their inputs, the result is that
  of insertion sort.
\<close>

fun insertSorted :: "('a \<Rightarrow> 'a \<Rightarrow> int) \<Rightarrow> 'a \<Rightarrow> 'a list \<Rightarrow> 'a list" where
  "insertSorted cmp x [] = [x]"
| "insertSorted cmp x (y # ys) =
     (if cmp x y \<le> 0 then x # y # ys else y # insertSorted cmp x ys)"

definition sortBy :: "('a \<Rightarrow> 'a \<Rightarrow> int) \<Rightarrow> 'a list \<Rightarrow> 'a list" where
  "sortBy cmp xs = foldr (insertSorted cmp) xs []"

definition getYearsForContentType ::
    "taxonomy option \<Rightarrow> patentType \<Rightarrow> string \<Rightarrow> string list option" where
  "getYearsForContentType data activeTab contentTypeSel =
     (case data of
        None \<Rightarrow> Some (sortBy (\<lambda>a b. toNumber b - toNumber a) [])
      | Some d \<Rightarrow>
          (case obj_get (tabOf d activeTab) ''Content'' of
             None \<Rightarrow> Some (sortBy (\<lambda>a b. toNumber b - toNumber a) [])
           | Some (Grouped g) \<Rightarrow> None
           | Some (Flat content) \<Rightarrow>
               Some (sortBy (\<lambda>a b. toNumber b - toNumber a)
                 (fold (\<lambda>item years.
                          case year item of
                            None \<Rightarrow> years
                          | Some y \<Rightarrow>
                              if y \<noteq> [] \<and> (contentTypeSel = ''all''
                                           \<or> contentType item = Some contentTypeSel)
                              then setAdd years y else years)
                    content []))))"

subsection \<open>filterData\<close>

text \<open>
  The text predicate of the four filters:
  \<^verbatim>\<open>item.displayName.toLowerCase().includes(search.toLowerCase()) ||
  item.description.toLowerCase().includes(search.toLowerCase())\<close>.
\<close>

definition matchesSearch :: "(jsText \<Rightarrow> jsText) \<Rightarrow> jsText \<Rightarrow> classified \<Rightarrow> bool" where
  "matchesSearch toLowerCase search item =
     (includesStr (toLowerCase (units (displayName item))) (toLowerCase search)
      \<or> includesStr (toLowerCase (description item)) (toLowerCase search))"

definition filterFlat ::
    "(jsText \<Rightarrow> jsText) \<Rightarrow> jsText \<Rightarrow> string \<Rightarrow> string \<Rightarrow> string \<Rightarrow> classified \<Rightarrow> bool" where
  "filterFlat toLowerCase search yearFilter contentTypeFilter cat item =
     (let matchesYear = (if yearFilter \<noteq> ''all'' \<and> cat = ''Content''
                         then year item = Some yearFilter else True);
          matchesContentType = (if contentTypeFilter \<noteq> ''all'' \<and> cat = ''Content''
                                then contentType item = Some contentTypeFilter else True)
      in matchesSearch toLowerCase search item \<and> matchesYear \<and> matchesContentType)"

definition filterCategory ::
    "(jsText \<Rightarrow> jsText) \<Rightarrow> jsText \<Rightarrow> string \<Rightarrow> string \<Rightarrow> string \<Rightarrow> bucket \<Rightarrow> bucket" where
  "filterCategory toLowerCase search yearFilter contentTypeFilter cat b =
     (case b of
        Grouped g \<Rightarrow>
          Grouped \<lparr>disambiguated = filter (matchesSearch toLowerCase search) (disambiguated g),
                   raw = filter (matchesSearch toLowerCase search) (raw g),
                   main = Some (case main g of
                                  None \<Rightarrow> []
                                | Some xs \<Rightarrow> filter (matchesSearch toLowerCase search) xs)\<rparr>
      | Flat xs \<Rightarrow>
          Flat (filter (filterFlat toLowerCase search yearFilter contentTypeFilter cat) xs))"

definition filterData ::
    "(jsText \<Rightarrow> jsText) \<Rightarrow> taxonomy option \<Rightarrow> patentType \<Rightarrow> jsText \<Rightarrow> string \<Rightarrow> string
     \<Rightarrow> bucket obj" where
  "filterData toLowerCase data activeTab search yearFilter contentTypeFilter =
     (case data of
        None \<Rightarrow> []
      | Some d \<Rightarrow>
          fold (\<lambda>(cat, b) filtered.
                  obj_set filtered cat
                    (filterCategory toLowerCase search yearFilter contentTypeFilter cat b))
            (tabOf d activeTab) [])"

subsection \<open>Category order and counts\<close>

record categoryCount =
  name :: string
  count :: nat

definition categoryOrder :: "string list" where
  "categoryOrder =
     [''Essentials'', ''General'', ''People'', ''Classification'', ''Legal'', ''Government'',
      ''Geography'', ''Other Documentation'', ''Citations'', ''Mapping'', ''Other'',
      ''Content'']"

text \<open>\<^verbatim>\<open>xs.indexOf(x)\<close>: the first position of \<open>x\<close>, or \<open>-1\<close>.\<close>

fun indexOf :: "'a list \<Rightarrow> 'a \<Rightarrow> int" where
  "indexOf [] x = -1"
| "indexOf (y # ys) x =
     (if y = x then 0 else (let i = indexOf ys x in if i = -1 then -1 else i + 1))"

definition compareCategories :: "categoryCount \<Rightarrow> categoryCount \<Rightarrow> int" where
  "compareCategories a b =
     (let aIndex = indexOf categoryOrder (name a);
          bIndex = indexOf categoryOrder (name b)
      in if aIndex = -1 \<and> bIndex = -1 then 0
         else if aIndex = -1 then 1
         else if bIndex = -1 then -1
         else aIndex - bIndex)"

definition sortCategories :: "categoryCount list \<Rightarrow> categoryCount list" where
  "sortCategories categories = sortBy compareCategories categories"

definition countBucket :: "bucket \<Rightarrow> nat" where
  "countBucket b =
     (case b of
        Flat xs \<Rightarrow> length xs
      | Grouped g \<Rightarrow>
          length (disambiguated g) + length (raw g)
          + (case main g of None \<Rightarrow> 0 | Some xs \<Rightarrow> length xs))"

definition getCategoriesWithCounts :: "bucket obj \<Rightarrow> categoryCount list" where
  "getCategoriesWithCounts filteredData =
     sortCategories
       (filter (\<lambda>cat. count cat > 0)
          (map (\<lambda>(cat, b). \<lparr>name = cat, count = countBucket b\<rparr>) filteredData))"

subsection \<open>The aggregator in the words of the specification\<close>

text \<open>
  What the specification says a tab holds under a key once the items are inserted: under
  \<open>Essentials\<close>, created eagerly, the items of the patent type whose identifier is on the
  allow-list; under a category, created on first use, the items of the patent type with
  that category, in the order of the input. \<open>bucketItems\<close> lists the items of a bucket.
\<close>

definition spec_aggregate :: "classified list \<Rightarrow> patentType \<Rightarrow> string \<Rightarrow> bucket option" where
  "spec_aggregate items ty k =
     (if k = ''Essentials''
      then Some (Flat (filter (\<lambda>x. type x = ty \<and> List.member essentialFiles (table_name x)) items))
      else if list_ex (\<lambda>x. type x = ty \<and> category x = k) items
      then Some (Flat (filter (\<lambda>x. type x = ty \<and> category x = k) items))
      else None)"

definition bucketItems :: "bucket \<Rightarrow> classified list" where
  "bucketItems b =
     (case b of
        Flat xs \<Rightarrow> xs
      | Grouped g \<Rightarrow>
          disambiguated g @ raw g @ (case main g of None \<Rightarrow> [] | Some xs \<Rightarrow> xs))"

subsection \<open>The category order in the words of the specification\<close>

definition spec_priorityOrder :: "string list" where
  "spec_priorityOrder =
     [''Essentials'', ''General'', ''People'', ''Classification'', ''Legal'', ''Government'',
      ''Geography'', ''Other Documentation'', ''Citations'', ''Mapping'', ''Other'',
      ''Content'']"

text \<open>
  The rank of a name is its position in the priority sequence; a name that is not in
  the sequence has the length of the sequence as its rank, after every listed name.
\<close>

definition spec_rank :: "string \<Rightarrow> nat" where
  "spec_rank n = length (takeWhile (\<lambda>c. c \<noteq> n) spec_priorityOrder)"

section \<open>Example data\<close>

definition exampleDescriptor :: "string \<Rightarrow> descriptor" where
  "exampleDescriptor n =
     \<lparr> table_name = n, description = units (''Table '' @ n),
       shareable_link = ''files/'' @ n \<rparr>"

definition exampleData :: "descriptor list" where
  "exampleData =
     map exampleDescriptor
       [''g_inventor_disambiguated'', ''g_inventor_not_disambiguated'', ''g_claims_2020'',
        ''g_claims_2019'', ''pg_claims_2021'', ''g_patent'', ''g_summary'', ''g_attorney'',
        ''g_abstract_2020'', ''g_location_disambiguated'']"

definition examplePeople :: "classified list" where
  "examplePeople =
     map (\<lambda>n. categorizeItem (exampleDescriptor n))
       [''g_inventor_disambiguated'', ''g_inventor_not_disambiguated'', ''g_attorney'']"

definition exampleContent :: "classified list" where
  "exampleContent =
     map (\<lambda>n. categorizeItem (exampleDescriptor n))
       [''g_claims_2020'', ''g_claims_2019'', ''g_abstract_2020'']"

definition exampleTaxonomy :: taxonomy where
  "exampleTaxonomy =
     \<lparr>granted = [(''Essentials'', Flat []),
                 (''People'', Grouped (organizeByDisambiguation examplePeople)),
                 (''Content'', Flat exampleContent)],
      pregrant = [(''Essentials'', Flat [])]\<rparr>"

text \<open>
  A lower-casing function for the examples: it agrees with
  \<^verbatim>\<open>String.prototype.toLowerCase\<close> on text whose code units are below 256 (the letters
  A to Z, and the capital letters from U+00C0 to U+00DE without the sign U+00D7).
\<close>

definition latin1LowerCase :: "jsText \<Rightarrow> jsText" where
  "latin1LowerCase t =
     map (\<lambda>u. if (65 \<le> u \<and> u \<le> 90) \<or> (192 \<le> u \<and> u \<le> 222 \<and> u \<noteq> 215)
               then u + 32 else u) t"

text \<open>
  A tab with one dataset whose description is the word CAFE written with the capital
  letter U+00C9 at its end; the query of the example is the same word in small letters,
  with U+00E9.
\<close>

definition exampleCafe :: classified where
  "exampleCafe =
     categorizeItem \<lparr> table_name = ''g_patent'', description = [67, 65, 70, 201],
                      shareable_link = ''files/g_patent'' \<rparr>"

definition exampleCafeTaxonomy :: taxonomy where
  "exampleCafeTaxonomy =
     \<lparr>granted = [(''Essentials'', Flat [exampleCafe]), (''General'', Flat [exampleCafe])],
      pregrant = [(''Essentials'', Flat [])]\<rparr>"

definition exampleView :: "bucket obj" where
  "exampleView =
     [(''Content'', Flat exampleContent), (''Essentials'', Flat []),
      (''Archive'', Flat exampleContent),
      (''People'', Grouped (organizeByDisambiguation examplePeople))]"

section \<open>Facts about strings\<close>

lemma startsWith_iff: "startsWith s p \<longleftrightarrow> (\<exists>t. s = p @ t)"
  by (induction s p rule: startsWith.induct) auto

lemma includesStr_iff: "includesStr s p \<longleftrightarrow> (\<exists>pre post. s = pre @ p @ post)"
proof (induction s)
  case Nil
  then show ?case by auto
next
  case (Cons c cs)
  show ?case
  proof
    assume "includesStr (c # cs) p"
    then consider "startsWith (c # cs) p" | "includesStr cs p" by auto
    then show "\<exists>pre post. c # cs = pre @ p @ post"
    proof cases
      case 1
      then obtain t where "c # cs = p @ t" by (auto simp: startsWith_iff)
      then have "c # cs = [] @ p @ t" by simp
      then show ?thesis by blast
    next
      case 2
      then obtain pre post where "cs = pre @ p @ post" using Cons.IH by auto
      then have "c # cs = (c # pre) @ p @ post" by simp
      then show ?thesis by blast
    qed
  next
    assume "\<exists>pre post. c # cs = pre @ p @ post"
    then obtain pre post where e: "c # cs = pre @ p @ post" by auto
    show "includesStr (c # cs) p"
    proof (cases pre)
      case Nil
      then have "startsWith (c # cs) p" using e by (auto simp: startsWith_iff)
      then show ?thesis by simp
    next
      case (Cons a pre')
      then have "cs = pre' @ p @ post" using e by simp
      then have "includesStr cs p" using Cons.IH by auto
      then show ?thesis by simp
    qed
  qed
qed

lemma includesStr_Nil [simp]: "includesStr s []"
  by (cases s) auto

lemma yearMatch_Some_iff:
  "yearMatch s = Some y \<longleftrightarrow> (\<exists>pre. s = pre @ ''_'' @ y \<and> length y = 4 \<and> list_all isDigit y)"
proof (induction s)
  case Nil
  then show ?case by simp
next
  case (Cons c cs)
  have not_digit: "\<not> isDigit CHR ''_''" by (simp add: isDigit_def)
  show ?case
  proof (cases "c = CHR ''_'' \<and> length cs = 4 \<and> list_all isDigit cs")
    case True
    have "(\<exists>pre. c # cs = pre @ ''_'' @ y \<and> length y = 4 \<and> list_all isDigit y) \<longleftrightarrow> cs = y"
    proof
      assume "\<exists>pre. c # cs = pre @ ''_'' @ y \<and> length y = 4 \<and> list_all isDigit y"
      then obtain pre where e: "c # cs = pre @ ''_'' @ y" and l: "length y = 4" by auto
      have "length (c # cs) = length pre + 1 + length y" using e by simp
      then have "pre = []" using True l by simp
      then show "cs = y" using e by simp
    next
      assume "cs = y"
      then have "c # cs = [] @ ''_'' @ y" using True by simp
      then show "\<exists>pre. c # cs = pre @ ''_'' @ y \<and> length y = 4 \<and> list_all isDigit y"
        using True \<open>cs = y\<close> by blast
    qed
    then show ?thesis using True by auto
  next
    case False
    have "(\<exists>pre. c # cs = pre @ ''_'' @ y \<and> length y = 4 \<and> list_all isDigit y)
          \<longleftrightarrow> (\<exists>pre. cs = pre @ ''_'' @ y \<and> length y = 4 \<and> list_all isDigit y)"
    proof
      assume "\<exists>pre. c # cs = pre @ ''_'' @ y \<and> length y = 4 \<and> list_all isDigit y"
      then obtain pre where e: "c # cs = pre @ ''_'' @ y" and l: "length y = 4"
        and d: "list_all isDigit y" by auto
      show "\<exists>pre. cs = pre @ ''_'' @ y \<and> length y = 4 \<and> list_all isDigit y"
      proof (cases pre)
        case Nil
        then have "c = CHR ''_'' \<and> cs = y" using e by simp
        then show ?thesis using False l d by simp
      next
        case (Cons a pre')
        then have "cs = pre' @ ''_'' @ y" using e by simp
        then show ?thesis using l d by blast
      qed
    next
      assume "\<exists>pre. cs = pre @ ''_'' @ y \<and> length y = 4 \<and> list_all isDigit y"
      then obtain pre where "cs = pre @ ''_'' @ y" and l: "length y = 4"
        and d: "list_all isDigit y" by auto
      then have "c # cs = (c # pre) @ ''_'' @ y" by simp
      then show "\<exists>pre. c # cs = pre @ ''_'' @ y \<and> length y = 4 \<and> list_all isDigit y"
        using l d by blast
    qed
    then show ?thesis using False Cons.IH by auto
  qed
qed

section \<open>The classifier\<close>

lemma contentType_categorizeItem:
  "contentType (categorizeItem item) = spec_firstContentType (table_name item)"
  by (simp add: categorizeItem_def spec_firstContentType_def spec_contentTypeTable_def Let_def)

lemma contentType_dataProcessor:
  "contentType (dataProcessor_categorizeItem item) = spec_firstContentType (table_name item)"
  by (simp add: dataProcessor_categorizeItem_def spec_firstContentType_def
      spec_contentTypeTable_def Let_def)

lemma year_categorizeItem:
  "year (categorizeItem item) =
     (if contentType (categorizeItem item) \<noteq> None then yearMatch (table_name item) else None)"
  by (simp add: categorizeItem_def Let_def)

lemma year_dataProcessor:
  "year (dataProcessor_categorizeItem item) =
     (if contentType (dataProcessor_categorizeItem item) \<noteq> None
      then yearMatch (table_name item) else None)"
  by (simp add: dataProcessor_categorizeItem_def Let_def)

lemma category_Content_categorizeItem:
  "contentType (categorizeItem item) \<noteq> None \<Longrightarrow> category (categorizeItem item) = ''Content''"
  by (simp add: categorizeItem_def Let_def)

lemma category_Content_dataProcessor:
  "contentType (dataProcessor_categorizeItem item) \<noteq> None
   \<Longrightarrow> category (dataProcessor_categorizeItem item) = ''Content''"
  by (simp add: dataProcessor_categorizeItem_def Let_def)

lemma spec_firstContentType_None:
  "spec_firstContentType ident = None \<longleftrightarrow>
     \<not> includesStr ident ''brf_sum_text_'' \<and> \<not> includesStr ident ''claims_''
     \<and> \<not> includesStr ident ''detail_desc_text_'' \<and> \<not> includesStr ident ''draw_desc_text_''
     \<and> \<not> includesStr ident ''abstract''"
  by (simp add: spec_firstContentType_def spec_contentTypeTable_def)

lemma spec_firstFunctionalArea_None:
  "spec_firstFunctionalArea ident = None \<longleftrightarrow>
     \<not> (includesStr ident ''inventor'' \<or> includesStr ident ''attorney''
        \<or> includesStr ident ''lawyer'' \<or> includesStr ident ''assignee''
        \<or> includesStr ident ''applicant'' \<or> includesStr ident ''examiner'')
     \<and> \<not> (includesStr ident ''location'' \<or> includesStr ident ''geography'')
     \<and> \<not> (includesStr ident ''cpc'' \<or> includesStr ident ''uspc''
          \<or> includesStr ident ''ipc'' \<or> includesStr ident ''wipo'')
     \<and> \<not> (includesStr ident ''citation'' \<or> includesStr ident ''reference'')
     \<and> \<not> (includesStr ident ''gov_interest'' \<or> includesStr ident ''federal'')
     \<and> \<not> (includesStr ident ''priority'' \<or> includesStr ident ''rel_''
          \<or> includesStr ident ''term'' \<or> includesStr ident ''pct'')
     \<and> \<not> (includesStr ident ''persistent'' \<or> includesStr ident ''crosswalk''
          \<or> includesStr ident ''granted_pgpubs'')
     \<and> \<not> (includesStr ident ''figures'' \<or> includesStr ident ''botanic'')"
  by (simp add: spec_firstFunctionalArea_def spec_functionalRules_def spec_containsAny_def
      find_None_iff)

lemma displayName_categorizeItem:
  "displayName (categorizeItem item) =
     replaceUnderscores
       (join '' '' (map capitalize (split CHR ''_'' (stripTypePrefix (table_name item)))))"
  unfolding categorizeItem_def Let_def by (simp only: classified.select_convs)

lemma displayName_dataProcessor:
  "displayName (dataProcessor_categorizeItem item) =
     replaceUnderscores
       (join '' '' (map capitalize (split CHR ''_'' (stripTypePrefix (table_name item)))))"
  unfolding dataProcessor_categorizeItem_def Let_def by (simp only: classified.select_convs)

lemma ptype_categorizeItem:
  "type (categorizeItem item) =
     (if startsWith (table_name item) ''pg_'' then Pregrant else Granted)"
  unfolding categorizeItem_def Let_def by (simp only: classified.select_convs)

lemma ptype_dataProcessor:
  "type (dataProcessor_categorizeItem item) =
     (if startsWith (table_name item) ''pg_'' then Pregrant else Granted)"
  unfolding dataProcessor_categorizeItem_def Let_def by (simp only: classified.select_convs)

lemma descriptor_categorizeItem:
  "table_name (categorizeItem item) = table_name item
   \<and> description (categorizeItem item) = description item
   \<and> shareable_link (categorizeItem item) = shareable_link item"
  unfolding categorizeItem_def Let_def by (simp only: descriptor.select_convs simp_thms)

lemma descriptor_dataProcessor:
  "table_name (dataProcessor_categorizeItem item) = table_name item
   \<and> description (dataProcessor_categorizeItem item) = description item
   \<and> shareable_link (dataProcessor_categorizeItem item) = shareable_link item"
  unfolding dataProcessor_categorizeItem_def Let_def
  by (simp only: descriptor.select_convs simp_thms)

text \<open>The two chains of functional areas, over the truth values of their tests.\<close>

lemma category_chains:
  "(if c then ''Content'' else if p1 then ''People'' else if p2 then ''Geography''
    else if p3 then ''Classification'' else if p4 then ''Citations''
    else if p5 then ''Government'' else if p6 then ''Legal'' else if p7 then ''Mapping''
    else if p8 then ''Other Documentation'' else ''General'')
   = (let x = (if c then ''Content'' else if p1 then ''People'' else if p2 then ''Geography''
               else if p3 then ''Classification'' else if p4 then ''Citations''
               else if p5 then ''Government'' else if p6 then ''Legal''
               else if p7 then ''Mapping'' else if p8 then ''Other Documentation''
               else if p9 then ''General'' else ''Other'')
      in if x = ''Other'' then ''General'' else x)"
  by (simp add: Let_def)

lemma category_dataProcessor:
  "category (dataProcessor_categorizeItem item) =
     (if category (categorizeItem item) = ''Other'' then ''General''
      else category (categorizeItem item))"
  unfolding dataProcessor_categorizeItem_def categorizeItem_def Let_def
  by (simp only: classified.select_convs category_chains [unfolded Let_def, where ?p9.0 = "includesStr (table_name item) ''patent'' \<or> includesStr (table_name item) ''application''"])

text \<open>
  C1, as stated for both classifiers, fails: the function of dataProcessor.js puts an
  identifier that matches no pattern, and contains neither \<open>patent\<close> nor \<open>application\<close>,
  into \<open>General\<close>.
\<close>

theorem dataProcessor_fallback_General:
  "spec_firstContentType ''pg_gender'' = None
   \<and> spec_firstFunctionalArea ''pg_gender'' = None
   \<and> \<not> includesStr ''pg_gender'' ''patent''
   \<and> \<not> includesStr ''pg_gender'' ''application''
   \<and> category (dataProcessor_categorizeItem
         \<lparr> table_name = ''pg_gender'', description = units ''d'', shareable_link = ''u'' \<rparr>)
       = ''General''"
  by code_simp

text \<open>
  C1, amended. A descriptor whose identifier matches no content-type pattern and none of
  the functional-area rules 1 to 8 is put into \<open>General\<close> by the classifier of the
  component when the identifier contains \<open>patent\<close> or \<open>application\<close>, and into \<open>Other\<close>
  otherwise. The classifier of dataProcessor.js puts it into \<open>General\<close> in both cases.
\<close>

theorem categorizeItem_fallback:
  assumes "spec_firstContentType (table_name item) = None"
    and "spec_firstFunctionalArea (table_name item) = None"
  shows "category (categorizeItem item) =
           (if includesStr (table_name item) ''patent''
               \<or> includesStr (table_name item) ''application''
            then ''General'' else ''Other'')
       \<and> category (dataProcessor_categorizeItem item) = ''General''"
proof -
  note c = assms(1) [unfolded spec_firstContentType_None]
  note r = assms(2) [unfolded spec_firstFunctionalArea_None]
  have 1: "category (categorizeItem item) =
           (if includesStr (table_name item) ''patent''
               \<or> includesStr (table_name item) ''application''
            then ''General'' else ''Other'')"
    unfolding categorizeItem_def Let_def
    using c r by simp
  have 2: "category (dataProcessor_categorizeItem item) = ''General''"
    unfolding category_dataProcessor 1 by simp
  from 1 2 show ?thesis by (rule conjI)
qed

theorem categorizeItem_fallback_witness:
  "category (categorizeItem \<lparr> table_name = ''g_patent'', description = units ''d'',
                               shareable_link = ''u'' \<rparr>) = ''General''
   \<and> category (categorizeItem \<lparr> table_name = ''pg_rawdata'', description = units ''d'',
                                 shareable_link = ''u'' \<rparr>) = ''Other''
   \<and> category (dataProcessor_categorizeItem \<lparr> table_name = ''pg_rawdata'', description = units ''d'',
                                 shareable_link = ''u'' \<rparr>) = ''General''"
proof -
  let ?a = "\<lparr> table_name = ''g_patent'', description = units ''d'', shareable_link = ''u'' \<rparr>"
  let ?b = "\<lparr> table_name = ''pg_rawdata'', description = units ''d'', shareable_link = ''u'' \<rparr>"
  have a1: "spec_firstContentType (table_name ?a) = None" by code_simp
  have a2: "spec_firstFunctionalArea (table_name ?a) = None" by code_simp
  have b1: "spec_firstContentType (table_name ?b) = None" by code_simp
  have b2: "spec_firstFunctionalArea (table_name ?b) = None" by code_simp
  have a3: "includesStr (table_name ?a) ''patent''" by code_simp
  have b3: "\<not> (includesStr (table_name ?b) ''patent''
               \<or> includesStr (table_name ?b) ''application'')" by code_simp
  note ta = categorizeItem_fallback [OF a1 a2]
  note tb = categorizeItem_fallback [OF b1 b2]
  from ta [THEN conjunct1] a3
  have 1: "category (categorizeItem ?a) = ''General''" by (simp only: if_True simp_thms)
  from tb [THEN conjunct1] b3
  have 2: "category (categorizeItem ?b) = ''Other''" by (simp only: if_False)
  from 1 2 tb [THEN conjunct2] show ?thesis by (intro conjI)
qed

text \<open>
  C2. In both classifiers the content type is the label of the first of the five
  patterns, in the order of the table, that the identifier contains. Whenever a content
  type is assigned the category is \<open>Content\<close>, and the year is the four digits of a
  trailing underscore-and-four-digits suffix; it is unset when there is no such suffix,
  and always when no content type was assigned.
\<close>

theorem categorizeItem_content:
  assumes "f = categorizeItem \<or> f = dataProcessor_categorizeItem"
  shows "contentType (f item) = spec_firstContentType (table_name item)
       \<and> (contentType (f item) \<noteq> None \<longrightarrow> category (f item) = ''Content'')
       \<and> (\<forall>y. year (f item) = Some y \<longleftrightarrow>
              contentType (f item) \<noteq> None
              \<and> (\<exists>pre. table_name item = pre @ ''_'' @ y \<and> length y = 4
                        \<and> list_all isDigit y))"
proof -
  have 1: "contentType (f item) = spec_firstContentType (table_name item)"
    using assms contentType_categorizeItem contentType_dataProcessor by blast
  have 2: "contentType (f item) \<noteq> None \<longrightarrow> category (f item) = ''Content''"
    using assms category_Content_categorizeItem category_Content_dataProcessor by blast
  have y: "year (f item) =
             (if contentType (f item) \<noteq> None then yearMatch (table_name item) else None)"
    using assms year_categorizeItem year_dataProcessor by blast
  have 3: "year (f item) = Some y \<longleftrightarrow>
             contentType (f item) \<noteq> None
             \<and> (\<exists>pre. table_name item = pre @ ''_'' @ y \<and> length y = 4
                       \<and> list_all isDigit y)" for y
    unfolding y yearMatch_Some_iff [of "table_name item" y, symmetric] by simp
  from 1 2 3 show ?thesis by blast
qed

theorem categorizeItem_content_witness:
  "contentType (categorizeItem \<lparr> table_name = ''pg_claims_2020'', description = units ''d'',
                                  shareable_link = ''u'' \<rparr>) = Some ''Claims''
   \<and> category (categorizeItem \<lparr> table_name = ''pg_claims_2020'', description = units ''d'',
                                 shareable_link = ''u'' \<rparr>) = ''Content''
   \<and> year (categorizeItem \<lparr> table_name = ''pg_claims_2020'', description = units ''d'',
                             shareable_link = ''u'' \<rparr>) = Some ''2020''"
proof -
  let ?i = "\<lparr> table_name = ''pg_claims_2020'', description = units ''d'', shareable_link = ''u'' \<rparr>"
  note t = categorizeItem_content [of categorizeItem ?i, OF disjI1 [OF refl]]
  have s: "spec_firstContentType (table_name ?i) = Some ''Claims''" by code_simp
  have ct: "contentType (categorizeItem ?i) = Some ''Claims''"
    by (rule trans [OF t [THEN conjunct1] s])
  have ne: "contentType (categorizeItem ?i) \<noteq> None"
    unfolding ct by (rule option.distinct(2))
  have cat: "category (categorizeItem ?i) = ''Content''"
    by (rule t [THEN conjunct2, THEN conjunct1, THEN mp, OF ne])
  have e: "table_name ?i = ''pg_claims'' @ ''_'' @ ''2020'' \<and> length ''2020'' = 4
        \<and> list_all isDigit ''2020''"
    by code_simp
  note ex = exI [where P = "\<lambda>pre. table_name ?i = pre @ ''_'' @ ''2020'' \<and> length ''2020'' = 4
        \<and> list_all isDigit ''2020''" and x = "''pg_claims''", OF e]
  have yr: "year (categorizeItem ?i) = Some ''2020''"
    by (rule t [THEN conjunct2, THEN conjunct2, THEN spec, THEN iffD2, OF conjI [OF ne ex]])
  from ct cat yr show ?thesis by (intro conjI)
qed

section \<open>The two classifiers compared\<close>

text \<open>
  C10, as stated, fails: for an identifier that matches no pattern at all the function of
  dataProcessor.js answers \<open>General\<close> and the one of the component answers \<open>Other\<close>.
\<close>

theorem classifiers_differ:
  "category (dataProcessor_categorizeItem
       \<lparr> table_name = ''g_summary'', description = units ''d'', shareable_link = ''u'' \<rparr>) = ''General''
   \<and> category (categorizeItem
       \<lparr> table_name = ''g_summary'', description = units ''d'', shareable_link = ''u'' \<rparr>) = ''Other''
   \<and> dataProcessor_categorizeItem
         \<lparr> table_name = ''g_summary'', description = units ''d'', shareable_link = ''u'' \<rparr>
       \<noteq> categorizeItem
         \<lparr> table_name = ''g_summary'', description = units ''d'', shareable_link = ''u'' \<rparr>"
proof -
  let ?i = "\<lparr> table_name = ''g_summary'', description = units ''d'', shareable_link = ''u'' \<rparr>"
  have a: "category (dataProcessor_categorizeItem ?i) = ''General''" by code_simp
  have b: "category (categorizeItem ?i) = ''Other''" by code_simp
  have "category (dataProcessor_categorizeItem ?i) \<noteq> category (categorizeItem ?i)"
    unfolding a b by simp
  then have "dataProcessor_categorizeItem ?i \<noteq> categorizeItem ?i" by force
  with a b show ?thesis by (intro conjI)
qed

text \<open>
  C10, amended. For every descriptor the two classifiers return the same descriptor
  fields, displayName, type, contentType and year. They return the same category unless
  the component returns \<open>Other\<close>; there dataProcessor.js returns \<open>General\<close>.
\<close>

theorem classifiers_agree_up_to_fallback:
  "table_name (dataProcessor_categorizeItem item) = table_name (categorizeItem item)
   \<and> description (dataProcessor_categorizeItem item) = description (categorizeItem item)
   \<and> shareable_link (dataProcessor_categorizeItem item) = shareable_link (categorizeItem item)
   \<and> displayName (dataProcessor_categorizeItem item) = displayName (categorizeItem item)
   \<and> type (dataProcessor_categorizeItem item) = type (categorizeItem item)
   \<and> contentType (dataProcessor_categorizeItem item) = contentType (categorizeItem item)
   \<and> year (dataProcessor_categorizeItem item) = year (categorizeItem item)
   \<and> category (dataProcessor_categorizeItem item) =
       (if category (categorizeItem item) = ''Other'' then ''General''
        else category (categorizeItem item))"
proof -
  have ct: "contentType (dataProcessor_categorizeItem item) = contentType (categorizeItem item)"
    by (simp only: contentType_dataProcessor contentType_categorizeItem)
  have yr: "year (dataProcessor_categorizeItem item) = year (categorizeItem item)"
    by (simp only: year_dataProcessor year_categorizeItem ct)
  have dn: "displayName (dataProcessor_categorizeItem item) = displayName (categorizeItem item)"
    by (simp only: displayName_dataProcessor displayName_categorizeItem)
  have pt: "type (dataProcessor_categorizeItem item) = type (categorizeItem item)"
    by (simp only: ptype_dataProcessor ptype_categorizeItem)
  have d: "table_name (dataProcessor_categorizeItem item) = table_name (categorizeItem item)"
    "description (dataProcessor_categorizeItem item) = description (categorizeItem item)"
    "shareable_link (dataProcessor_categorizeItem item) = shareable_link (categorizeItem item)"
    by (simp_all only: descriptor_dataProcessor descriptor_categorizeItem)
  from d dn pt ct yr category_dataProcessor [of item] show ?thesis by (intro conjI)
qed

theorem classifiers_agree_up_to_fallback_witness:
  "category (dataProcessor_categorizeItem
       \<lparr> table_name = ''pg_rawdata'', description = units ''d'', shareable_link = ''u'' \<rparr>) = ''General''
   \<and> category (dataProcessor_categorizeItem
       \<lparr> table_name = ''g_ipc_at_issue'', description = units ''d'', shareable_link = ''u'' \<rparr>)
       = ''Classification''"
proof -
  let ?i = "\<lparr> table_name = ''pg_rawdata'', description = units ''d'', shareable_link = ''u'' \<rparr>"
  let ?j = "\<lparr> table_name = ''g_ipc_at_issue'', description = units ''d'', shareable_link = ''u'' \<rparr>"
  note t = classifiers_agree_up_to_fallback
  have i: "category (categorizeItem ?i) = ''Other''" by code_simp
  have j: "category (categorizeItem ?j) = ''Classification''" by code_simp
  have "category (dataProcessor_categorizeItem ?i) = ''General''"
    using t [of ?i] unfolding i by simp
  moreover have "category (dataProcessor_categorizeItem ?j) = ''Classification''"
    using t [of ?j] unfolding j by simp
  ultimately show ?thesis by (rule conjI)
qed

section \<open>The display-name formatter\<close>

lemma toUpperChar_underscore: "toUpperChar c = CHR ''_'' \<longleftrightarrow> c = CHR ''_''"
proof
  assume a: "toUpperChar c = CHR ''_''"
  define n where "n = (of_char c :: nat)"
  show "c = CHR ''_''"
  proof (cases "97 \<le> n \<and> n \<le> 122")
    case True
    then have "char_of (n - 32) = CHR ''_''"
      using a by (simp add: toUpperChar_def Let_def n_def)
    then have "(of_char (char_of (n - 32)) :: nat) = of_char CHR ''_''"
      by simp
    then have m: "(n - 32) mod 256 = 95" by simp
    have "n - 32 < (256::nat)" using True by arith
    then have "(n - 32) mod 256 = n - 32" by (rule mod_less)
    then have "n - 32 = (95::nat)" using m by simp
    then have False using True by arith
    then show ?thesis ..
  next
    case False
    then show ?thesis using a by (auto simp: toUpperChar_def Let_def n_def)
  qed
next
  assume "c = CHR ''_''"
  then show "toUpperChar c = CHR ''_''" by (simp add: toUpperChar_def)
qed

lemma split_not_Nil: "split d s \<noteq> []"
  by (induction s) (auto split: list.splits)

lemma join_split: "join [d] (split d s) = s"
proof (induction s)
  case Nil
  then show ?case by simp
next
  case (Cons c cs)
  obtain w ws where w: "split d cs = w # ws"
    using split_not_Nil [of d cs] by (cases "split d cs") auto
  show ?case
  proof (cases "c = d")
    case True
    then show ?thesis using Cons w by simp
  next
    case False
    then show ?thesis using Cons w by (cases ws) auto
  qed
qed

lemma split_no_delimiter: "list_all (\<lambda>w. d \<notin> set w) (split d s)"
  by (induction s) (auto split: list.splits)

lemma set_capitalize: "CHR ''_'' \<notin> set w \<Longrightarrow> CHR ''_'' \<notin> set (capitalize w)"
proof (cases w)
  case Nil
  then show ?thesis by (simp add: capitalize_def toUpperCase_def)
next
  case (Cons c cs)
  assume "CHR ''_'' \<notin> set w"
  then have "c \<noteq> CHR ''_''" and "CHR ''_'' \<notin> set cs" using Cons by auto
  moreover have "toUpperChar c \<noteq> CHR ''_''"
    using \<open>c \<noteq> CHR ''_''\<close> by (simp add: toUpperChar_underscore)
  ultimately show ?thesis using Cons
    by (auto simp: capitalize_def toUpperCase_def)
qed

lemma set_join_space:
  "list_all (\<lambda>w. CHR ''_'' \<notin> set w) ws \<Longrightarrow> CHR ''_'' \<notin> set (join '' '' ws)"
  by (induction "'' ''" ws rule: join.induct) auto

lemma replaceUnderscores_id: "CHR ''_'' \<notin> set s \<Longrightarrow> replaceUnderscores s = s"
  by (induction s) (auto simp: replaceUnderscores_def)

lemma displayName_words:
  "list_all (\<lambda>w. CHR ''_'' \<notin> set w) ws \<Longrightarrow>
   replaceUnderscores (join '' '' (map capitalize ws)) = join '' '' (map capitalize ws)"
  by (rule replaceUnderscores_id, rule set_join_space) (simp add: list_all_iff set_capitalize)

lemma stripTypePrefix_spec: "stripTypePrefix s = spec_stripPrefix s"
proof -
  have "startsWith s p \<longleftrightarrow> take (length p) s = p" for p
    by (induction s p rule: startsWith.induct) auto
  from this [of "''g_''"] this [of "''pg_''"] show ?thesis
    by (simp add: stripTypePrefix_def spec_stripPrefix_def eval_nat_numeral)
qed

lemma matchIgnoreCase_occursAt: "matchIgnoreCase s p \<longleftrightarrow> spec_occursAt p s 0"
  by (induction s p rule: matchIgnoreCase.induct)
     (auto simp: spec_occursAt_def toUpperCase_def)

lemma occursAt_Suc: "spec_occursAt a (c # cs) (Suc i) = spec_occursAt a cs i"
  by (simp add: spec_occursAt_def)

lemma find_map_option: "find P (map f xs) = map_option f (find (\<lambda>x. P (f x)) xs)"
  by (induction xs) auto

lemma find_upt_Suc:
  "find P [0..<Suc (Suc n)] =
     (if P 0 then Some 0 else map_option Suc (find (\<lambda>i. P (Suc i)) [0..<Suc n]))"
proof -
  have "[0..<Suc (Suc n)] = 0 # map Suc [0..<Suc n]"
    by (simp only: map_Suc_upt upt_conv_Cons [of 0 "Suc (Suc n)"] zero_less_Suc)
  then show ?thesis by (simp only: find.simps find_map_option)
qed

lemma replaceIgnoreCase_spec: "replaceIgnoreCase a a s = spec_replaceFirst a s"
proof (induction s)
  case Nil
  show ?case
    by (cases a) (simp_all add: spec_replaceFirst_def spec_occursAt_def toUpperCase_def)
next
  case (Cons c cs)
  show ?case
  proof (cases "spec_occursAt a (c # cs) 0")
    case True
    then have "spec_replaceFirst a (c # cs) = a @ drop (length a) (c # cs)"
      unfolding spec_replaceFirst_def length_Cons find_upt_Suc by simp
    then show ?thesis using True by (simp add: matchIgnoreCase_occursAt)
  next
    case False
    have "spec_replaceFirst a (c # cs) = c # spec_replaceFirst a cs"
      unfolding spec_replaceFirst_def [of a "c # cs"] length_Cons find_upt_Suc
      using False
      by (simp add: occursAt_Suc spec_replaceFirst_def split: option.splits)
    then show ?thesis using False Cons by (simp add: matchIgnoreCase_occursAt)
  qed
qed

lemma formatDisplayName_spec: "formatDisplayName s = spec_fixAcronyms s"
  by (simp add: formatDisplayName_def spec_fixAcronyms_def abbreviations_def
      spec_acronyms_def replaceIgnoreCase_spec)

text \<open>
  C5. The label of a file card is obtained from the identifier by stripping a leading
  \<open>g_\<close> or \<open>pg_\<close>, splitting at the underscores (the words joined by underscores give
  the stripped identifier back, and no word contains an underscore), capitalizing the
  first letter of each word, joining the words with single spaces, and then, for the
  acronyms PCT, WIPO, CPC, IPC, USPC, US in this order, replacing the leftmost
  case-insensitive occurrence of the acronym by its upper-case form, each acronym once.
  The first stage, the displayName, is the same in both modules.
\<close>

theorem cardLabel_pipeline:
  "cardLabel item =
     spec_fixAcronyms
       (join '' '' (map capitalize (split CHR ''_'' (spec_stripPrefix (table_name item)))))
   \<and> displayName (dataProcessor_categorizeItem item) =
       join '' '' (map capitalize (split CHR ''_'' (spec_stripPrefix (table_name item))))
   \<and> displayName (categorizeItem item) =
       join '' '' (map capitalize (split CHR ''_'' (spec_stripPrefix (table_name item))))
   \<and> join ''_'' (split CHR ''_'' (spec_stripPrefix (table_name item)))
       = spec_stripPrefix (table_name item)
   \<and> list_all (\<lambda>w. CHR ''_'' \<notin> set w) (split CHR ''_'' (spec_stripPrefix (table_name item)))"
proof -
  let ?ws = "split CHR ''_'' (spec_stripPrefix (table_name item))"
  have nu: "list_all (\<lambda>w. CHR ''_'' \<notin> set w) ?ws" by (rule split_no_delimiter)
  have js: "join ''_'' ?ws = spec_stripPrefix (table_name item)" by (rule join_split)
  have dn: "displayName (categorizeItem item) = join '' '' (map capitalize ?ws)"
    by (simp only: displayName_categorizeItem stripTypePrefix_spec displayName_words [OF nu])
  have dp: "displayName (dataProcessor_categorizeItem item) = join '' '' (map capitalize ?ws)"
    by (simp only: displayName_dataProcessor stripTypePrefix_spec displayName_words [OF nu])
  have cl: "cardLabel item = spec_fixAcronyms (join '' '' (map capitalize ?ws))"
    by (simp only: cardLabel_def formatDisplayName_spec dn)
  from cl dp dn js nu show ?thesis by (intro conjI)
qed

theorem cardLabel_pipeline_witness:
  "cardLabel \<lparr> table_name = ''g_us_patent_citation'', description = units ''d'',
               shareable_link = ''u'' \<rparr> = ''US Patent Citation''"
proof -
  let ?i = "\<lparr> table_name = ''g_us_patent_citation'', description = units ''d'', shareable_link = ''u'' \<rparr>"
  have e: "spec_fixAcronyms
       (join '' '' (map capitalize (split CHR ''_'' (spec_stripPrefix (table_name ?i)))))
     = ''US Patent Citation''" by code_simp
  show ?thesis by (rule trans [OF cardLabel_pipeline [of ?i, THEN conjunct1] e])
qed

section \<open>Facts about objects\<close>

lemma obj_get_obj_set:
  "obj_get (obj_set obj k v) k' = (if k' = k then Some v else obj_get obj k')"
  by (induction obj) (auto simp: obj_get_def)

lemma obj_keys_obj_set:
  "obj_keys (obj_set obj k v) = (if k \<in> set (obj_keys obj) then obj_keys obj else obj_keys obj @ [k])"
  by (induction obj) (fastforce simp: obj_keys_def)+

lemma obj_set_new: "k \<notin> set (obj_keys obj) \<Longrightarrow> obj_set obj k v = obj @ [(k, v)]"
  by (induction obj) (auto simp: obj_keys_def)

lemma distinct_obj_set: "distinct (obj_keys obj) \<Longrightarrow> distinct (obj_keys (obj_set obj k v))"
  by (simp add: obj_keys_obj_set)

lemma obj_get_None_iff: "obj_get obj k = None \<longleftrightarrow> k \<notin> set (obj_keys obj)"
  by (simp add: obj_get_def obj_keys_def map_of_eq_None_iff)

lemma obj_get_entry:
  "distinct (obj_keys obj) \<Longrightarrow> (k, v) \<in> set obj \<Longrightarrow> obj_get obj k = Some v"
  by (simp add: obj_get_def obj_keys_def)

lemma obj_get_Some_entry: "obj_get obj k = Some v \<Longrightarrow> (k, v) \<in> set obj"
  by (simp add: obj_get_def map_of_SomeD)

section \<open>The disambiguation splitter\<close>

lemma fold_organizeStep:
  "fold organizeStep items acc =
     \<lparr>disambiguated = disambiguated acc @
        filter (\<lambda>i. \<not> includesStr (table_name i) ''_not_disambiguated''
                    \<and> includesStr (table_name i) ''_disambiguated'') items,
      raw = raw acc @ filter (\<lambda>i. includesStr (table_name i) ''_not_disambiguated'') items,
      main =
        (if filter (\<lambda>i. \<not> includesStr (table_name i) ''_not_disambiguated''
                        \<and> \<not> includesStr (table_name i) ''_disambiguated'') items = []
         then main acc
         else Some ((case main acc of None \<Rightarrow> [] | Some xs \<Rightarrow> xs) @
                filter (\<lambda>i. \<not> includesStr (table_name i) ''_not_disambiguated''
                            \<and> \<not> includesStr (table_name i) ''_disambiguated'') items))\<rparr>"
proof (induction items arbitrary: acc)
  case Nil
  show ?case by simp
next
  case (Cons i items)
  show ?case
    unfolding fold_simps Cons.IH
    by (simp add: organizeStep_def)
qed

lemma organizeByDisambiguation_eq:
  "organizeByDisambiguation items =
     \<lparr>disambiguated =
        filter (\<lambda>i. \<not> includesStr (table_name i) ''_not_disambiguated''
                    \<and> includesStr (table_name i) ''_disambiguated'') items,
      raw = filter (\<lambda>i. includesStr (table_name i) ''_not_disambiguated'') items,
      main =
        (if filter (\<lambda>i. \<not> includesStr (table_name i) ''_not_disambiguated''
                        \<and> \<not> includesStr (table_name i) ''_disambiguated'') items = []
         then None
         else Some (filter (\<lambda>i. \<not> includesStr (table_name i) ''_not_disambiguated''
                            \<and> \<not> includesStr (table_name i) ''_disambiguated'') items))\<rparr>"
  unfolding organizeByDisambiguation_def fold_organizeStep by simp

lemma obj_get_organizeCategory_other:
  "k \<noteq> cat \<Longrightarrow> obj_get (organizeCategory tab cat) k = obj_get tab k"
  by (simp add: organizeCategory_def obj_get_obj_set Let_def split: option.splits bucket.splits)

lemma obj_get_organizeCategory_Flat:
  "obj_get tab cat = Some (Flat items) \<Longrightarrow>
   obj_get (organizeCategory tab cat) cat =
     Some (if disambiguated (organizeByDisambiguation items) \<noteq> []
              \<or> raw (organizeByDisambiguation items) \<noteq> []
           then Grouped (organizeByDisambiguation items) else Flat items)"
  by (simp add: organizeCategory_def obj_get_obj_set Let_def organizeByDisambiguation_def)

lemma obj_get_organizeTab_other:
  "k \<noteq> ''People'' \<Longrightarrow> k \<noteq> ''Geography'' \<Longrightarrow> obj_get (organizeTab tab) k = obj_get tab k"
  by (simp add: organizeTab_def obj_get_organizeCategory_other)

lemma obj_get_organizeTab_Flat:
  assumes "cat = ''People'' \<or> cat = ''Geography''" and "obj_get tab cat = Some (Flat items)"
  shows "obj_get (organizeTab tab) cat =
     Some (if disambiguated (organizeByDisambiguation items) \<noteq> []
              \<or> raw (organizeByDisambiguation items) \<noteq> []
           then Grouped (organizeByDisambiguation items) else Flat items)"
  using assms(1)
proof
  assume c: "cat = ''People''"
  have "obj_get (organizeTab tab) cat = obj_get (organizeCategory tab ''People'') ''People''"
    unfolding c organizeTab_def by (simp add: obj_get_organizeCategory_other)
  then show ?thesis using obj_get_organizeCategory_Flat [of tab "''People''" items] assms(2) c
    by simp
next
  assume c: "cat = ''Geography''"
  have "obj_get (organizeCategory tab ''People'') ''Geography'' = Some (Flat items)"
    using assms(2) c by (simp add: obj_get_organizeCategory_other)
  then show ?thesis
    unfolding c organizeTab_def
    using obj_get_organizeCategory_Flat [of "organizeCategory tab ''People''" "''Geography''" items]
    by simp
qed

text \<open>
  C4. Of the items of a People or Geography bucket, those whose identifier contains
  \<open>_not_disambiguated\<close> go to \<open>raw\<close>; of the others, those containing \<open>_disambiguated\<close>
  go to \<open>disambiguated\<close>; the rest go to \<open>main\<close>; each sub-sequence keeps the order of
  the bucket. The array of the bucket is replaced by this grouping exactly when
  \<open>disambiguated\<close> or \<open>raw\<close> is not empty, and stays as it is when both are empty.
\<close>

theorem organize_by_disambiguation:
  assumes "cat = ''People'' \<or> cat = ''Geography''" and "obj_get tab cat = Some (Flat items)"
  shows "raw (organizeByDisambiguation items) =
           filter (\<lambda>i. includesStr (table_name i) ''_not_disambiguated'') items
       \<and> disambiguated (organizeByDisambiguation items) =
           filter (\<lambda>i. \<not> includesStr (table_name i) ''_not_disambiguated''
                       \<and> includesStr (table_name i) ''_disambiguated'') items
       \<and> (case main (organizeByDisambiguation items) of None \<Rightarrow> [] | Some xs \<Rightarrow> xs) =
           filter (\<lambda>i. \<not> includesStr (table_name i) ''_not_disambiguated''
                       \<and> \<not> includesStr (table_name i) ''_disambiguated'') items
       \<and> obj_get (organizeTab tab) cat =
           Some (if disambiguated (organizeByDisambiguation items) \<noteq> []
                    \<or> raw (organizeByDisambiguation items) \<noteq> []
                 then Grouped (organizeByDisambiguation items) else Flat items)"
proof -
  have 1: "raw (organizeByDisambiguation items) =
           filter (\<lambda>i. includesStr (table_name i) ''_not_disambiguated'') items"
    by (simp add: organizeByDisambiguation_eq)
  have 2: "disambiguated (organizeByDisambiguation items) =
           filter (\<lambda>i. \<not> includesStr (table_name i) ''_not_disambiguated''
                       \<and> includesStr (table_name i) ''_disambiguated'') items"
    by (simp add: organizeByDisambiguation_eq)
  have 3: "(case main (organizeByDisambiguation items) of None \<Rightarrow> [] | Some xs \<Rightarrow> xs) =
           filter (\<lambda>i. \<not> includesStr (table_name i) ''_not_disambiguated''
                       \<and> \<not> includesStr (table_name i) ''_disambiguated'') items"
    by (simp add: organizeByDisambiguation_eq)
  from 1 2 3 obj_get_organizeTab_Flat [OF assms] show ?thesis by (intro conjI)
qed

theorem organize_by_disambiguation_witness:
  "map table_name (raw (organizeByDisambiguation examplePeople)) = [''g_inventor_not_disambiguated'']
   \<and> obj_get (organizeTab [(''Essentials'', Flat []), (''People'', Flat examplePeople)]) ''People''
       = Some (Grouped (organizeByDisambiguation examplePeople))"
proof -
  let ?tab = "[(''Essentials'', Flat []), (''People'', Flat examplePeople)]"
  have h: "obj_get ?tab ''People'' = Some (Flat examplePeople)" by (simp add: obj_get_def)
  note t = organize_by_disambiguation [of "''People''" ?tab examplePeople, OF disjI1 [OF refl] h]
  have e: "map table_name
             (filter (\<lambda>i. includesStr (table_name i) ''_not_disambiguated'') examplePeople)
           = [''g_inventor_not_disambiguated'']" by code_simp
  have r: "map table_name (raw (organizeByDisambiguation examplePeople))
           = [''g_inventor_not_disambiguated'']"
    unfolding t [THEN conjunct1] by (rule e)
  then have "raw (organizeByDisambiguation examplePeople) \<noteq> []" by auto
  then have "obj_get (organizeTab ?tab) ''People''
             = Some (Grouped (organizeByDisambiguation examplePeople))"
    using t [THEN conjunct2, THEN conjunct2, THEN conjunct2] by simp
  with r show ?thesis by (rule conjI)
qed

section \<open>The filter engine\<close>

lemma fold_obj_set_fresh:
  assumes "distinct (map fst xs)" and "set (map fst xs) \<inter> set (obj_keys acc) = {}"
  shows "fold (\<lambda>(k, b) filtered. obj_set filtered k (g k b)) xs acc
         = acc @ map (\<lambda>(k, b). (k, g k b)) xs"
  using assms
proof (induction xs arbitrary: acc)
  case Nil
  show ?case by simp
next
  case (Cons x xs)
  obtain k b where x: "x = (k, b)" by (cases x)
  have fresh: "k \<notin> set (obj_keys acc)" using Cons.prems(2) x by auto
  have step: "obj_set acc k (g k b) = acc @ [(k, g k b)]"
    by (rule obj_set_new [OF fresh])
  have d: "distinct (map fst xs)" using Cons.prems(1) by simp
  have "set (map fst xs) \<inter> set (obj_keys (acc @ [(k, g k b)])) = {}"
    using Cons.prems x by (auto simp: obj_keys_def)
  from Cons.IH [OF d this] show ?case
    by (simp add: x step)
qed

lemma filterData_map:
  assumes "distinct (obj_keys (tabOf d activeTab))"
  shows "filterData toLowerCase (Some d) activeTab search yearFilter contentTypeFilter =
           map (\<lambda>(cat, b).
                  (cat, filterCategory toLowerCase search yearFilter contentTypeFilter cat b))
             (tabOf d activeTab)"
proof -
  have "fold (\<lambda>(k, b) filtered. obj_set filtered k
                (filterCategory toLowerCase search yearFilter contentTypeFilter k b))
          (tabOf d activeTab) []
        = [] @ map (\<lambda>(k, b).
                     (k, filterCategory toLowerCase search yearFilter contentTypeFilter k b))
                 (tabOf d activeTab)"
    by (rule fold_obj_set_fresh) (use assms in \<open>simp_all add: obj_keys_def\<close>)
  then show ?thesis by (simp add: filterData_def)
qed

lemma obj_keys_map_values: "obj_keys (map (\<lambda>(k, b). (k, g k b)) obj) = obj_keys obj"
  by (induction obj) (auto simp: obj_keys_def)

lemma obj_get_map_values:
  "obj_get (map (\<lambda>(k, b). (k, g k b)) obj) k = map_option (g k) (obj_get obj k)"
  by (induction obj) (auto simp: obj_get_def)

lemma filterFlat_iff:
  "filterFlat toLowerCase search yearFilter contentTypeFilter cat item \<longleftrightarrow>
     matchesSearch toLowerCase search item
     \<and> (cat = ''Content'' \<longrightarrow>
          (yearFilter = ''all'' \<or> year item = Some yearFilter)
          \<and> (contentTypeFilter = ''all'' \<or> contentType item = Some contentTypeFilter))"
  by (auto simp: filterFlat_def Let_def)

lemma filterFlat_fun:
  "filterFlat toLowerCase search yearFilter contentTypeFilter cat =
     (\<lambda>item. matchesSearch toLowerCase search item
        \<and> (cat = ''Content'' \<longrightarrow>
             (yearFilter = ''all'' \<or> year item = Some yearFilter)
             \<and> (contentTypeFilter = ''all'' \<or> contentType item = Some contentTypeFilter)))"
  by (rule ext) (rule filterFlat_iff)

text \<open>Every string includes the empty string, and the empty string has no letters.\<close>

lemma matchesSearch_empty: "toLowerCase [] = [] \<Longrightarrow> matchesSearch toLowerCase [] item"
  by (simp add: matchesSearch_def)

text \<open>
  C3. Whatever the lower-casing of free text is, the filtered view has the keys of the
  active tab, in the same order. A grouped category stays grouped, each of its three
  sub-sequences filtered by the text predicate alone (a missing \<open>main\<close> becomes the empty
  sequence). A flat category stays flat and is filtered by the text predicate and, only
  in the category \<open>Content\<close>, by the year (unless the year filter is \<open>all\<close>) and by the
  content type (unless that filter is \<open>all\<close>). The text predicate holds of an item when
  the lower-cased displayName or the lower-cased description includes the lower-cased
  query.
\<close>

theorem filterData_shape:
  assumes "distinct (obj_keys (tabOf d activeTab))"
  shows "obj_keys (filterData toLowerCase (Some d) activeTab search yearFilter contentTypeFilter)
           = obj_keys (tabOf d activeTab)
       \<and> (\<forall>(cat, b) \<in> set (tabOf d activeTab).
            obj_get (filterData toLowerCase (Some d) activeTab search yearFilter
                       contentTypeFilter) cat =
              Some (case b of
                 Grouped g \<Rightarrow>
                   Grouped \<lparr>disambiguated =
                              filter (matchesSearch toLowerCase search) (disambiguated g),
                            raw = filter (matchesSearch toLowerCase search) (raw g),
                            main = Some (filter (matchesSearch toLowerCase search)
                                     (case main g of None \<Rightarrow> [] | Some xs \<Rightarrow> xs))\<rparr>
               | Flat xs \<Rightarrow>
                   Flat (filter (\<lambda>item. matchesSearch toLowerCase search item
                     \<and> (cat = ''Content'' \<longrightarrow>
                          (yearFilter = ''all'' \<or> year item = Some yearFilter)
                          \<and> (contentTypeFilter = ''all''
                              \<or> contentType item = Some contentTypeFilter))) xs)))
       \<and> (\<forall>item. matchesSearch toLowerCase search item \<longleftrightarrow>
            (\<exists>pre post. toLowerCase (units (displayName item))
                           = pre @ toLowerCase search @ post)
            \<or> (\<exists>pre post. toLowerCase (description item)
                             = pre @ toLowerCase search @ post))"
proof -
  note m = filterData_map [OF assms, where toLowerCase = toLowerCase and search = search
      and yearFilter = yearFilter and contentTypeFilter = contentTypeFilter]
  have keys: "obj_keys (filterData toLowerCase (Some d) activeTab search yearFilter
                          contentTypeFilter)
           = obj_keys (tabOf d activeTab)"
    unfolding m by (rule obj_keys_map_values)
  have "obj_get (filterData toLowerCase (Some d) activeTab search yearFilter
                   contentTypeFilter) cat =
              Some (case b of
                 Grouped g \<Rightarrow>
                   Grouped \<lparr>disambiguated =
                              filter (matchesSearch toLowerCase search) (disambiguated g),
                            raw = filter (matchesSearch toLowerCase search) (raw g),
                            main = Some (filter (matchesSearch toLowerCase search)
                                     (case main g of None \<Rightarrow> [] | Some xs \<Rightarrow> xs))\<rparr>
               | Flat xs \<Rightarrow>
                   Flat (filter (\<lambda>item. matchesSearch toLowerCase search item
                     \<and> (cat = ''Content'' \<longrightarrow>
                          (yearFilter = ''all'' \<or> year item = Some yearFilter)
                          \<and> (contentTypeFilter = ''all''
                              \<or> contentType item = Some contentTypeFilter))) xs))"
    if e: "(cat, b) \<in> set (tabOf d activeTab)" for cat b
  proof -
    have g: "obj_get (tabOf d activeTab) cat = Some b"
      by (rule obj_get_entry [OF assms e])
    show ?thesis
      unfolding m obj_get_map_values g
      by (cases b) (simp_all add: filterCategory_def filterFlat_fun split: option.splits)
  qed
  then have shape: "\<forall>(cat, b) \<in> set (tabOf d activeTab).
            obj_get (filterData toLowerCase (Some d) activeTab search yearFilter
                       contentTypeFilter) cat =
              Some (case b of
                 Grouped g \<Rightarrow>
                   Grouped \<lparr>disambiguated =
                              filter (matchesSearch toLowerCase search) (disambiguated g),
                            raw = filter (matchesSearch toLowerCase search) (raw g),
                            main = Some (filter (matchesSearch toLowerCase search)
                                     (case main g of None \<Rightarrow> [] | Some xs \<Rightarrow> xs))\<rparr>
               | Flat xs \<Rightarrow>
                   Flat (filter (\<lambda>item. matchesSearch toLowerCase search item
                     \<and> (cat = ''Content'' \<longrightarrow>
                          (yearFilter = ''all'' \<or> year item = Some yearFilter)
                          \<and> (contentTypeFilter = ''all''
                              \<or> contentType item = Some contentTypeFilter))) xs))"
    by blast
  have pred: "\<forall>item. matchesSearch toLowerCase search item \<longleftrightarrow>
            (\<exists>pre post. toLowerCase (units (displayName item))
                           = pre @ toLowerCase search @ post)
            \<or> (\<exists>pre post. toLowerCase (description item)
                             = pre @ toLowerCase search @ post)"
    by (simp add: matchesSearch_def includesStr_iff)
  from keys shape pred show ?thesis by (intro conjI)
qed

theorem filterData_shape_witness:
  "obj_keys (filterData latin1LowerCase (Some exampleTaxonomy) Granted (units ''CLAIMS'')
               ''2020'' ''all'')
     = [''Essentials'', ''People'', ''Content'']
   \<and> obj_get (filterData latin1LowerCase (Some exampleTaxonomy) Granted (units ''CLAIMS'')
                 ''2020'' ''all'') ''Content''
     = Some (Flat [categorizeItem (exampleDescriptor ''g_claims_2020'')])
   \<and> obj_get (filterData latin1LowerCase (Some exampleCafeTaxonomy) Granted [99, 97, 102, 233]
                 ''all'' ''all'') ''General''
     = Some (Flat [exampleCafe])"
proof -
  have d: "distinct (obj_keys (tabOf exampleTaxonomy Granted))"
    by (simp add: exampleTaxonomy_def obj_keys_def)
  note t = filterData_shape [OF d, where toLowerCase = latin1LowerCase
      and search = "units ''CLAIMS''" and yearFilter = "''2020''"
      and contentTypeFilter = "''all''"]
  have k: "obj_keys (tabOf exampleTaxonomy Granted) = [''Essentials'', ''People'', ''Content'']"
    by (simp add: exampleTaxonomy_def obj_keys_def)
  have mem: "(''Content'', Flat exampleContent) \<in> set (tabOf exampleTaxonomy Granted)"
    by (simp add: exampleTaxonomy_def)
  have q: "obj_get (filterData latin1LowerCase (Some exampleTaxonomy) Granted (units ''CLAIMS'')
                 ''2020'' ''all'') ''Content''
      = Some (Flat (filter (\<lambda>item. matchesSearch latin1LowerCase (units ''CLAIMS'') item
                     \<and> (''Content'' = ''Content'' \<longrightarrow>
                          (''2020'' = ''all'' \<or> year item = Some ''2020'')
                          \<and> (''all'' = ''all'' \<or> contentType item = Some ''all'')))
                 exampleContent))"
    using t [THEN conjunct2, THEN conjunct1, THEN bspec, OF mem]
    by (simp only: prod.case bucket.case)
  have e: "filter (\<lambda>item. matchesSearch latin1LowerCase (units ''CLAIMS'') item
                     \<and> (''Content'' = ''Content'' \<longrightarrow>
                          (''2020'' = ''all'' \<or> year item = Some ''2020'')
                          \<and> (''all'' = ''all'' \<or> contentType item = Some ''all'')))
                 exampleContent
           = [categorizeItem (exampleDescriptor ''g_claims_2020'')]"
    by code_simp
  have d': "distinct (obj_keys (tabOf exampleCafeTaxonomy Granted))"
    by (simp add: exampleCafeTaxonomy_def obj_keys_def)
  note t' = filterData_shape [OF d', where toLowerCase = latin1LowerCase
      and search = "[99, 97, 102, 233]" and yearFilter = "''all''"
      and contentTypeFilter = "''all''"]
  have mem': "(''General'', Flat [exampleCafe]) \<in> set (tabOf exampleCafeTaxonomy Granted)"
    by (simp add: exampleCafeTaxonomy_def)
  have q': "obj_get (filterData latin1LowerCase (Some exampleCafeTaxonomy) Granted
                 [99, 97, 102, 233] ''all'' ''all'') ''General''
      = Some (Flat (filter (\<lambda>item. matchesSearch latin1LowerCase [99, 97, 102, 233] item
                     \<and> (''General'' = ''Content'' \<longrightarrow>
                          (''all'' = ''all'' \<or> year item = Some ''all'')
                          \<and> (''all'' = ''all'' \<or> contentType item = Some ''all'')))
                 [exampleCafe]))"
    using t' [THEN conjunct2, THEN conjunct1, THEN bspec, OF mem']
    by (simp only: prod.case bucket.case)
  have e': "filter (\<lambda>item. matchesSearch latin1LowerCase [99, 97, 102, 233] item
                     \<and> (''General'' = ''Content'' \<longrightarrow>
                          (''all'' = ''all'' \<or> year item = Some ''all'')
                          \<and> (''all'' = ''all'' \<or> contentType item = Some ''all'')))
                 [exampleCafe]
           = [exampleCafe]"
    by code_simp
  show ?thesis
    unfolding t [THEN conjunct1] k q e q' e' by simp
qed

text \<open>
  C7. With the empty query and both facets \<open>all\<close>, the filtered view has the keys of the
  active tab and every category holds the items of the taxonomy: the same array for a
  flat category, the same three sub-sequences for a grouped one (a missing \<open>main\<close> shows
  as the empty sequence). This holds for every lower-casing that maps the empty string
  to itself, as \<^verbatim>\<open>String.prototype.toLowerCase\<close> does.
\<close>

theorem filterData_identity:
  assumes "distinct (obj_keys (tabOf d activeTab))" and "toLowerCase [] = []"
  shows "filterData toLowerCase (Some d) activeTab [] ''all'' ''all'' =
           map (\<lambda>(cat, b). (cat,
                  case b of
                    Flat xs \<Rightarrow> Flat xs
                  | Grouped g \<Rightarrow>
                      Grouped (g\<lparr>main := Some (case main g of None \<Rightarrow> [] | Some xs \<Rightarrow> xs)\<rparr>)))
             (tabOf d activeTab)"
proof -
  note e = matchesSearch_empty [where toLowerCase = toLowerCase, OF assms(2)]
  have f: "filterFlat toLowerCase [] ''all'' ''all'' cat = (\<lambda>item. True)" for cat
    by (rule ext) (simp add: filterFlat_iff e)
  have s: "matchesSearch toLowerCase [] = (\<lambda>item. True)"
    by (rule ext) (simp add: e)
  have "filterCategory toLowerCase [] ''all'' ''all'' cat b =
          (case b of
             Flat xs \<Rightarrow> Flat xs
           | Grouped g \<Rightarrow>
               Grouped (g\<lparr>main := Some (case main g of None \<Rightarrow> [] | Some xs \<Rightarrow> xs)\<rparr>))"
    for cat b
    by (cases b) (auto simp: filterCategory_def f s split: option.splits)
  then show ?thesis
    unfolding filterData_map [OF assms(1)] by simp
qed

theorem filterData_identity_witness:
  "filterData latin1LowerCase (Some exampleTaxonomy) Granted [] ''all'' ''all'' =
     [(''Essentials'', Flat []),
      (''People'', Grouped ((organizeByDisambiguation examplePeople)
          \<lparr>main := Some (case main (organizeByDisambiguation examplePeople) of
                           None \<Rightarrow> [] | Some xs \<Rightarrow> xs)\<rparr>)),
      (''Content'', Flat exampleContent)]"
proof -
  have d: "distinct (obj_keys (tabOf exampleTaxonomy Granted))"
    by (simp add: exampleTaxonomy_def obj_keys_def)
  have l: "latin1LowerCase [] = []" by (simp add: latin1LowerCase_def)
  show ?thesis
    unfolding filterData_identity [where toLowerCase = latin1LowerCase, OF d l]
    by (simp add: exampleTaxonomy_def)
qed

section \<open>Category order\<close>

lemma indexOf_takeWhile:
  "indexOf xs x = (if x \<in> set xs then int (length (takeWhile (\<lambda>c. c \<noteq> x) xs)) else -1)"
  by (induction xs) (auto simp: Let_def)

lemma length_takeWhile_less:
  "x \<in> set xs \<Longrightarrow> length (takeWhile (\<lambda>c. c \<noteq> x) xs) < length xs"
  by (induction xs) auto

lemma length_takeWhile_absent:
  "x \<notin> set xs \<Longrightarrow> length (takeWhile (\<lambda>c. c \<noteq> x) xs) = length xs"
  by (induction xs) auto

lemma categoryOrder_spec: "categoryOrder = spec_priorityOrder"
  by (simp add: categoryOrder_def spec_priorityOrder_def)

lemma spec_rank_listed: "n \<in> set spec_priorityOrder \<longleftrightarrow> spec_rank n < length spec_priorityOrder"
proof (cases "n \<in> set spec_priorityOrder")
  case True
  then show ?thesis using length_takeWhile_less [of n spec_priorityOrder]
    by (simp add: spec_rank_def)
next
  case False
  then show ?thesis using length_takeWhile_absent [of n spec_priorityOrder]
    by (simp add: spec_rank_def)
qed

lemma compareCategories_le:
  "compareCategories a b \<le> 0 \<longleftrightarrow> spec_rank (name a) \<le> spec_rank (name b)"
proof -
  let ?xs = spec_priorityOrder
  have l: "x \<in> set ?xs \<Longrightarrow> length (takeWhile (\<lambda>c. c \<noteq> x) ?xs) < length ?xs" for x
    by (rule length_takeWhile_less)
  have r: "x \<notin> set ?xs \<Longrightarrow> length (takeWhile (\<lambda>c. c \<noteq> x) ?xs) = length ?xs" for x
    by (rule length_takeWhile_absent)
  show ?thesis
    unfolding compareCategories_def Let_def categoryOrder_spec indexOf_takeWhile spec_rank_def
    using l [of "name a"] l [of "name b"] r [of "name a"] r [of "name b"]
    by (cases "name a \<in> set ?xs"; cases "name b \<in> set ?xs") simp_all
qed

text \<open>
  The comparison function is the order of the ranks: its sign is the sign of the
  difference of the ranks, so it is a consistent ordering.
\<close>

lemma compareCategories_sign:
  "(compareCategories a b < 0 \<longleftrightarrow> spec_rank (name a) < spec_rank (name b))
   \<and> (compareCategories a b = 0 \<longleftrightarrow> spec_rank (name a) = spec_rank (name b))"
proof -
  let ?xs = spec_priorityOrder
  have l: "x \<in> set ?xs \<Longrightarrow> length (takeWhile (\<lambda>c. c \<noteq> x) ?xs) < length ?xs" for x
    by (rule length_takeWhile_less)
  have r: "x \<notin> set ?xs \<Longrightarrow> length (takeWhile (\<lambda>c. c \<noteq> x) ?xs) = length ?xs" for x
    by (rule length_takeWhile_absent)
  show ?thesis
    unfolding compareCategories_def Let_def categoryOrder_spec indexOf_takeWhile spec_rank_def
    using l [of "name a"] l [of "name b"] r [of "name a"] r [of "name b"]
    by (cases "name a \<in> set ?xs"; cases "name b \<in> set ?xs") simp_all
qed

lemma insertSorted_insort_key:
  assumes "\<And>a b. cmp a b \<le> 0 \<longleftrightarrow> f a \<le> f b"
  shows "insertSorted cmp x ys = insort_key f x ys"
  by (induction ys) (simp_all add: assms)

lemma sortBy_sort_key:
  assumes "\<And>a b. cmp a b \<le> 0 \<longleftrightarrow> f a \<le> f b"
  shows "sortBy cmp xs = sort_key f xs"
  unfolding sortBy_def sort_key_def
  by (induction xs) (simp_all add: insertSorted_insort_key [OF assms])

lemma sortCategories_sort_key:
  "sortCategories cs = sort_key (\<lambda>c. spec_rank (name c)) cs"
  unfolding sortCategories_def by (rule sortBy_sort_key) (rule compareCategories_le)

lemma distinct_map_sort_key: "distinct (map g (sort_key f xs)) = distinct (map g xs)"
proof -
  have "distinct (map g (insort_key f x ys)) = (g x \<notin> g ` set ys \<and> distinct (map g ys))"
    for x ys
    by (induction ys) (auto simp: set_insort_key)
  then show ?thesis by (induction xs) simp_all
qed

lemma spec_rank_Content: "spec_rank ''Content'' = 11"
  by (simp add: spec_rank_def spec_priorityOrder_def)

lemma spec_rank_ge_Content:
  "11 \<le> spec_rank n \<Longrightarrow> n = ''Content'' \<or> n \<notin> set spec_priorityOrder"
  by (simp add: spec_rank_def spec_priorityOrder_def split: if_splits)


lemma spec_rank_unlisted:
  "n \<notin> set spec_priorityOrder \<longleftrightarrow> spec_rank n = length spec_priorityOrder"
proof (cases "n \<in> set spec_priorityOrder")
  case True
  then show ?thesis using spec_rank_listed [of n] by simp
next
  case False
  then show ?thesis using length_takeWhile_absent [of n spec_priorityOrder]
    by (simp add: spec_rank_def)
qed

lemma getCategoriesWithCounts_sort_key:
  "getCategoriesWithCounts fv =
     sort_key (\<lambda>c. spec_rank (name c))
       (map (\<lambda>(cat, b). \<lparr>name = cat, count = countBucket b\<rparr>)
          (filter (\<lambda>(cat, b). 0 < countBucket b) fv))"
proof -
  have "filter (\<lambda>c. 0 < count c) (map (\<lambda>(cat, b). \<lparr>name = cat, count = countBucket b\<rparr>) fv)
        = map (\<lambda>(cat, b). \<lparr>name = cat, count = countBucket b\<rparr>)
            (filter (\<lambda>(cat, b). 0 < countBucket b) fv)"
    by (induction fv) auto
  then show ?thesis
    by (simp add: getCategoriesWithCounts_def sortCategories_sort_key)
qed

lemma map_name_counts:
  "map name (map (\<lambda>(cat, b). \<lparr>name = cat, count = countBucket b\<rparr>) xs) = map fst xs"
  by (induction xs) auto

text \<open>
  C8. The list of categories with counts holds exactly the categories of the filtered
  view whose count is not zero, the count of a flat category being the length of its
  sequence and that of a grouped one the sum of the lengths of its three sub-sequences.
  The list is ordered by the position of the name in the fixed priority sequence, names
  that are not in the sequence coming after all that are, in the order of the view.
  Whatever follows the entry \<open>Content\<close> is not in the priority sequence.
\<close>

theorem getCategoriesWithCounts_ordered:
  assumes "distinct (obj_keys fv)"
  shows "set (getCategoriesWithCounts fv) =
           {\<lparr>name = cat, count = countBucket b\<rparr> | cat b. (cat, b) \<in> set fv \<and> 0 < countBucket b}
       \<and> length (getCategoriesWithCounts fv) = length (filter (\<lambda>(cat, b). 0 < countBucket b) fv)
       \<and> countBucket (Flat xs) = length xs
       \<and> countBucket (Grouped g) =
           length (disambiguated g) + length (raw g)
           + length (case main g of None \<Rightarrow> [] | Some ys \<Rightarrow> ys)
       \<and> sorted_wrt (\<lambda>a b. spec_rank (name a) \<le> spec_rank (name b)) (getCategoriesWithCounts fv)
       \<and> filter (\<lambda>c. name c \<notin> set spec_priorityOrder) (getCategoriesWithCounts fv) =
           map (\<lambda>(cat, b). \<lparr>name = cat, count = countBucket b\<rparr>)
             (filter (\<lambda>(cat, b). 0 < countBucket b \<and> cat \<notin> set spec_priorityOrder) fv)
       \<and> (\<forall>i j. i < j \<and> j < length (getCategoriesWithCounts fv)
                 \<and> name (getCategoriesWithCounts fv ! i) = ''Content''
              \<longrightarrow> name (getCategoriesWithCounts fv ! j) \<notin> set spec_priorityOrder)"
proof -
  let ?mk = "\<lambda>(cat, b). \<lparr>name = cat, count = countBucket b\<rparr>"
  let ?rk = "\<lambda>c. spec_rank (name c)"
  let ?counted = "map ?mk (filter (\<lambda>(cat, b). 0 < countBucket b) fv)"
  let ?r = "getCategoriesWithCounts fv"
  note r = getCategoriesWithCounts_sort_key [of fv]
  have 1: "set ?r = {\<lparr>name = cat, count = countBucket b\<rparr> | cat b.
                      (cat, b) \<in> set fv \<and> 0 < countBucket b}"
    unfolding r by (auto simp: image_iff)
  have 2: "length ?r = length (filter (\<lambda>(cat, b). 0 < countBucket b) fv)"
    unfolding r by simp
  have 3: "countBucket (Flat xs) = length xs" by (simp add: countBucket_def)
  have 4: "countBucket (Grouped g) =
           length (disambiguated g) + length (raw g)
           + length (case main g of None \<Rightarrow> [] | Some ys \<Rightarrow> ys)"
    by (simp add: countBucket_def split: option.splits)
  have "sorted (map ?rk ?r)" unfolding r by (rule sorted_sort_key)
  then have 5: "sorted_wrt (\<lambda>a b. spec_rank (name a) \<le> spec_rank (name b)) ?r"
    by (simp add: sorted_wrt_map)
  have "filter (\<lambda>c. name c \<notin> set spec_priorityOrder) ?r
        = filter (\<lambda>c. ?rk c = length spec_priorityOrder) ?r"
    by (simp add: spec_rank_unlisted)
  also have "\<dots> = filter (\<lambda>c. ?rk c = length spec_priorityOrder) ?counted"
    unfolding r by (rule sort_key_stable)
  also have "\<dots> = filter (\<lambda>c. name c \<notin> set spec_priorityOrder) ?counted"
    by (simp add: spec_rank_unlisted)
  also have "\<dots> = map ?mk
      (filter (\<lambda>(cat, b). 0 < countBucket b \<and> cat \<notin> set spec_priorityOrder) fv)"
    by (induction fv) auto
  finally have 6: "filter (\<lambda>c. name c \<notin> set spec_priorityOrder) ?r =
      map ?mk (filter (\<lambda>(cat, b). 0 < countBucket b \<and> cat \<notin> set spec_priorityOrder) fv)" .
  have "distinct (map fst (filter (\<lambda>(cat, b). 0 < countBucket b) fv))"
    using assms by (simp add: obj_keys_def distinct_map_filter)
  then have dn: "distinct (map name ?r)"
    unfolding r distinct_map_sort_key map_name_counts .
  have 7: "name (?r ! j) \<notin> set spec_priorityOrder"
    if ij: "i < j" "j < length ?r" and c: "name (?r ! i) = ''Content''" for i j
  proof -
    have "spec_rank (name (?r ! i)) \<le> spec_rank (name (?r ! j))"
      using sorted_wrt_nth_less [OF 5 ij] .
    then have "11 \<le> spec_rank (name (?r ! j))" by (simp add: c spec_rank_Content)
    then have alt: "name (?r ! j) = ''Content'' \<or> name (?r ! j) \<notin> set spec_priorityOrder"
      by (rule spec_rank_ge_Content)
    have "(map name ?r ! i = map name ?r ! j) = (i = j)"
      using dn ij by (intro nth_eq_iff_index_eq) simp_all
    then have "name (?r ! i) \<noteq> name (?r ! j)" using ij by simp
    then have "name (?r ! j) \<noteq> ''Content''" using c by simp
    with alt show ?thesis by simp
  qed
  from 1 2 3 4 5 6 7 show ?thesis by blast
qed

theorem getCategoriesWithCounts_ordered_witness:
  "length (getCategoriesWithCounts exampleView) = 3
   \<and> map name (filter (\<lambda>c. name c \<notin> set spec_priorityOrder)
                  (getCategoriesWithCounts exampleView)) = [''Archive'']"
proof -
  have d: "distinct (obj_keys exampleView)"
    by (simp add: exampleView_def obj_keys_def)
  note t = getCategoriesWithCounts_ordered [OF d]
  have e: "length (filter (\<lambda>(cat, b). 0 < countBucket b) exampleView) = 3"
    by code_simp
  have f: "map name (map (\<lambda>(cat, b). \<lparr>name = cat, count = countBucket b\<rparr>)
             (filter (\<lambda>(cat, b). 0 < countBucket b \<and> cat \<notin> set spec_priorityOrder)
                exampleView)) = [''Archive'']"
    by code_simp
  have 1: "length (getCategoriesWithCounts exampleView) = 3"
    unfolding t [THEN conjunct2, THEN conjunct1] by (rule e)
  have 2: "map name (filter (\<lambda>c. name c \<notin> set spec_priorityOrder)
                  (getCategoriesWithCounts exampleView)) = [''Archive'']"
    unfolding t [THEN conjunct2, THEN conjunct2, THEN conjunct2, THEN conjunct2,
                 THEN conjunct2, THEN conjunct1]
    by (rule f)
  from 1 2 show ?thesis by (rule conjI)
qed

section \<open>Years of a content type\<close>

lemma sortBy_years:
  "sortBy (\<lambda>a b. toNumber b - toNumber a) ys = sort_key (\<lambda>y. - toNumber y) ys"
proof -
  have "insertSorted (\<lambda>a b. toNumber b - toNumber a) x zs = insort_key (\<lambda>y. - toNumber y) x zs"
    for x zs
    by (induction zs) simp_all
  then show ?thesis
    unfolding sortBy_def sort_key_def by (induction ys) simp_all
qed

lemma set_setAdd: "set (setAdd ys y) = insert y (set ys)"
  by (auto simp: setAdd_def)

lemma distinct_setAdd: "distinct ys \<Longrightarrow> distinct (setAdd ys y)"
  by (simp add: setAdd_def)

lemma fold_years_all:
  "set (fold (\<lambda>item years.
                case year item of
                  None \<Rightarrow> years
                | Some y \<Rightarrow>
                    if y \<noteq> [] \<and> (''all'' = ''all'' \<or> contentType item = Some ''all'')
                    then setAdd years y else years) content acc)
     = set acc \<union> {y. y \<noteq> [] \<and> (\<exists>item \<in> set content. year item = Some y)}
   \<and> (distinct acc \<longrightarrow>
        distinct (fold (\<lambda>item years.
                case year item of
                  None \<Rightarrow> years
                | Some y \<Rightarrow>
                    if y \<noteq> [] \<and> (''all'' = ''all'' \<or> contentType item = Some ''all'')
                    then setAdd years y else years) content acc))"
proof (induction content arbitrary: acc)
  case Nil
  show ?case by simp
next
  case (Cons item content)
  show ?case
  proof (cases "year item")
    case None
    then show ?thesis using Cons.IH [of acc] by auto
  next
    case (Some y)
    show ?thesis
    proof (cases "y = []")
      case True
      then show ?thesis using Some Cons.IH [of acc] by auto
    next
      case False
      then show ?thesis using Some Cons.IH [of "setAdd acc y"]
        by (auto simp: set_setAdd distinct_setAdd)
    qed
  qed
qed

lemma digitValue_inj:
  assumes "isDigit a" and "isDigit b" and "digitValue a = digitValue b"
  shows "a = b"
proof -
  define m n where "m = (of_char a :: nat)" and "n = (of_char b :: nat)"
  have "48 \<le> m" "48 \<le> n" "m - 48 = n - 48"
    using assms by (simp_all add: isDigit_def digitValue_def Let_def m_def n_def)
  then have "m = n" by arith
  then show ?thesis by (simp add: m_def n_def)
qed

lemma digitValue_le: "isDigit a \<Longrightarrow> digitValue a \<le> 9"
proof -
  assume "isDigit a"
  define m where "m = (of_char a :: nat)"
  have "m \<le> 57" using \<open>isDigit a\<close> by (simp add: isDigit_def Let_def m_def)
  then have "m - 48 \<le> 9" by arith
  then show ?thesis by (simp add: digitValue_def m_def)
qed

lemma decimal_step:
  fixes m m' x x' :: nat
  assumes "10 * m + x = 10 * m' + x'" and "x \<le> 9" and "x' \<le> 9"
  shows "m = m' \<and> x = x'"
  using assms by arith

lemma toNumber_four:
  "toNumber [a, b, c, d] =
     int (10 * (10 * (10 * digitValue a + digitValue b) + digitValue c) + digitValue d)"
  by (simp add: toNumber_def)

lemma toNumber_inj:
  assumes "length s = 4" and "list_all isDigit s" and "length t = 4" and "list_all isDigit t"
    and "toNumber s = toNumber t"
  shows "s = t"
proof -
  obtain a b c d where s: "s = [a, b, c, d]"
    using assms(1) by (auto simp: length_Suc_conv eval_nat_numeral)
  obtain a' b' c' d' where t: "t = [a', b', c', d']"
    using assms(3) by (auto simp: length_Suc_conv eval_nat_numeral)
  have ds: "digitValue a \<le> 9" "digitValue b \<le> 9" "digitValue c \<le> 9" "digitValue d \<le> 9"
    using assms(2) by (simp_all add: s digitValue_le)
  have dt: "digitValue a' \<le> 9" "digitValue b' \<le> 9" "digitValue c' \<le> 9" "digitValue d' \<le> 9"
    using assms(4) by (simp_all add: t digitValue_le)
  have e: "10 * (10 * (10 * digitValue a + digitValue b) + digitValue c) + digitValue d
        = 10 * (10 * (10 * digitValue a' + digitValue b') + digitValue c') + digitValue d'"
    using assms(5) unfolding s t toNumber_four by (simp only: int_int_eq)
  note 1 = decimal_step [OF e ds(4) dt(4)]
  note 2 = decimal_step [OF 1 [THEN conjunct1] ds(3) dt(3)]
  note 3 = decimal_step [OF 2 [THEN conjunct1] ds(2) dt(2)]
  have "a = a'" "b = b'" "c = c'" "d = d'"
    using assms(2,4) 1 2 3 unfolding s t by (auto intro: digitValue_inj)
  then show ?thesis by (simp add: s t)
qed

lemma year_categorizeItem_digits:
  "year (categorizeItem item) = Some y \<Longrightarrow> length y = 4 \<and> list_all isDigit y"
  using yearMatch_Some_iff [of "table_name item" y]
  by (auto simp: year_categorizeItem split: if_splits)

text \<open>
  C9. With the content-type selection \<open>all\<close>, the years offered for a patent type are
  exactly the years that occur on the items of the Content bucket of that type, each
  once, in strictly descending numeric order. The years of a taxonomy are strings of
  four digits, and its Content bucket is an array (or absent, when no item has a content
  type).
\<close>

theorem getYearsForContentType_all:
  assumes "obj_get (tabOf d activeTab) ''Content'' = Some (Flat content)
           \<or> (obj_get (tabOf d activeTab) ''Content'' = None \<and> content = [])"
    and "\<forall>item \<in> set content. \<forall>y. year item = Some y \<longrightarrow> length y = 4 \<and> list_all isDigit y"
  shows "\<exists>ys. getYearsForContentType (Some d) activeTab ''all'' = Some ys
           \<and> set ys = {y. \<exists>item \<in> set content. year item = Some y}
           \<and> sorted_wrt (\<lambda>a b. toNumber b < toNumber a) ys"
proof -
  let ?step = "\<lambda>item years.
                case year item of
                  None \<Rightarrow> years
                | Some y \<Rightarrow>
                    if y \<noteq> [] \<and> (''all'' = ''all'' \<or> contentType item = Some ''all'')
                    then setAdd years y else years"
  let ?ys0 = "fold ?step content []"
  let ?ys = "sort_key (\<lambda>y. - toNumber y) ?ys0"
  have r: "getYearsForContentType (Some d) activeTab ''all'' = Some ?ys"
    using assms(1)
    by (auto simp: getYearsForContentType_def sortBy_years)
  have four: "length y = 4 \<and> list_all isDigit y" if "y \<in> set ?ys0" for y
    using that assms(2) fold_years_all [of content "[]"] by auto
  have s0: "set ?ys0 = {y. \<exists>item \<in> set content. year item = Some y}"
  proof -
    have "y \<noteq> []" if "item \<in> set content" "year item = Some y" for item y
      using assms(2) that by fastforce
    then show ?thesis using fold_years_all [of content "[]"] by auto
  qed
  have d0: "distinct ?ys0" using fold_years_all [of content "[]"] by simp
  have s: "set ?ys = {y. \<exists>item \<in> set content. year item = Some y}"
    using s0 by simp
  have dist: "distinct ?ys" using d0 by simp
  have "sorted (map (\<lambda>y. - toNumber y) ?ys)" by (rule sorted_sort_key)
  then have le: "sorted_wrt (\<lambda>a b. toNumber b \<le> toNumber a) ?ys"
    by (simp add: sorted_wrt_map)
  have "toNumber (?ys ! j) < toNumber (?ys ! i)" if ij: "i < j" "j < length ?ys" for i j
  proof -
    have l: "toNumber (?ys ! j) \<le> toNumber (?ys ! i)"
      using sorted_wrt_nth_less [OF le ij] .
    have "(?ys ! i = ?ys ! j) = (i = j)"
      using dist ij by (intro nth_eq_iff_index_eq) simp_all
    then have ne: "?ys ! i \<noteq> ?ys ! j" using ij by simp
    have "?ys ! i \<in> set ?ys0" "?ys ! j \<in> set ?ys0"
      using ij nth_mem [of i ?ys] nth_mem [of j ?ys] by simp_all
    then have "toNumber (?ys ! i) \<noteq> toNumber (?ys ! j)"
      using toNumber_inj [of "?ys ! i" "?ys ! j"] four ne by blast
    with l show ?thesis by simp
  qed
  then have "sorted_wrt (\<lambda>a b. toNumber b < toNumber a) ?ys"
    by (simp add: sorted_wrt_iff_nth_less)
  with r s show ?thesis by blast
qed

theorem getYearsForContentType_all_witness:
  "\<exists>ys. getYearsForContentType (Some exampleTaxonomy) Granted ''all'' = Some ys
        \<and> ''2020'' \<in> set ys"
proof -
  have c: "obj_get (tabOf exampleTaxonomy Granted) ''Content'' = Some (Flat exampleContent)
           \<or> (obj_get (tabOf exampleTaxonomy Granted) ''Content'' = None \<and> exampleContent = [])"
    by (simp add: exampleTaxonomy_def obj_get_def)
  have y: "\<forall>item \<in> set exampleContent. \<forall>y. year item = Some y
             \<longrightarrow> length y = 4 \<and> list_all isDigit y"
    by (auto simp: exampleContent_def dest: year_categorizeItem_digits)
  from getYearsForContentType_all [OF c y]
  obtain ys where r: "getYearsForContentType (Some exampleTaxonomy) Granted ''all'' = Some ys"
    and s: "set ys = {y. \<exists>item \<in> set exampleContent. year item = Some y}"
    by blast
  have m: "categorizeItem (exampleDescriptor ''g_claims_2020'') \<in> set exampleContent"
    by (simp add: exampleContent_def)
  have e: "year (categorizeItem (exampleDescriptor ''g_claims_2020'')) = Some ''2020''"
    by code_simp
  have "''2020'' \<in> set ys" unfolding s using m e by blast
  with r show ?thesis by blast
qed

section \<open>The aggregator\<close>

lemma category_chain_not_Essentials:
  "(if c then ''Content'' else if p1 then ''People'' else if p2 then ''Geography''
    else if p3 then ''Classification'' else if p4 then ''Citations''
    else if p5 then ''Government'' else if p6 then ''Legal'' else if p7 then ''Mapping''
    else if p8 then ''Other Documentation'' else if p9 then ''General'' else ''Other'')
   \<noteq> ''Essentials''"
  by simp

lemma category_not_Essentials: "category (categorizeItem item) \<noteq> ''Essentials''"
  unfolding categorizeItem_def Let_def
  by (simp only: classified.select_convs category_chain_not_Essentials simp_thms)

lemma obj_set_twice: "obj_set (obj_set obj k v) k w = obj_set obj k w"
  by (induction obj) auto

lemma tabOf_setTab: "tabOf (setTab t ty tab) ty' = (if ty' = ty then tab else tabOf t ty')"
  by (cases ty; cases ty') simp_all

lemma forEachM_append:
  "forEachM f (xs @ ys) s = (case forEachM f xs s of None \<Rightarrow> None | Some s' \<Rightarrow> forEachM f ys s')"
  by (induction xs arbitrary: s) (auto split: option.splits)

lemma processItem_eq:
  assumes e: "obj_get (tabOf t (type x)) ''Essentials'' = Some (Flat E)"
    and c: "obj_get (tabOf t (type x)) (category x) = Some (Flat F)
            \<or> (obj_get (tabOf t (type x)) (category x) = None \<and> F = [])"
    and n: "category x \<noteq> ''Essentials''"
  shows "processItem t x =
           Some (setTab t (type x)
             (if List.member essentialFiles (table_name x)
              then obj_set (obj_set (tabOf t (type x)) (category x) (Flat (F @ [x])))
                     ''Essentials'' (Flat (E @ [x]))
              else obj_set (tabOf t (type x)) (category x) (Flat (F @ [x]))))"
  using c
proof
  assume "obj_get (tabOf t (type x)) (category x) = Some (Flat F)"
  then show ?thesis using e n
    by (simp add: processItem_def pushItem_def Let_def obj_get_obj_set obj_set_twice)
next
  assume "obj_get (tabOf t (type x)) (category x) = None \<and> F = []"
  then show ?thesis using e n
    by (simp add: processItem_def pushItem_def Let_def obj_get_obj_set obj_set_twice)
qed

lemma spec_aggregate_snoc_other:
  "type x \<noteq> ty \<Longrightarrow> spec_aggregate (items @ [x]) ty k = spec_aggregate items ty k"
  by (auto simp: spec_aggregate_def list_ex_iff)

lemma processItem_step:
  assumes inv: "\<forall>ty k. obj_get (tabOf t ty) k = spec_aggregate items ty k"
    and dist: "\<forall>ty. distinct (obj_keys (tabOf t ty))"
    and n: "category x \<noteq> ''Essentials''"
  shows "\<exists>t'. processItem t x = Some t'
           \<and> (\<forall>ty k. obj_get (tabOf t' ty) k = spec_aggregate (items @ [x]) ty k)
           \<and> (\<forall>ty. distinct (obj_keys (tabOf t' ty)))"
proof -
  let ?ty = "type x" and ?c = "category x"
  let ?E = "filter (\<lambda>y. type y = ?ty \<and> List.member essentialFiles (table_name y)) items"
  let ?F = "filter (\<lambda>y. type y = ?ty \<and> category y = ?c) items"
  let ?tab = "tabOf t ?ty"
  let ?tabC = "obj_set ?tab ?c (Flat (?F @ [x]))"
  let ?tab' = "if List.member essentialFiles (table_name x)
               then obj_set ?tabC ''Essentials'' (Flat (?E @ [x])) else ?tabC"
  have e: "obj_get ?tab ''Essentials'' = Some (Flat ?E)"
    using inv by (simp add: spec_aggregate_def)
  have c: "obj_get ?tab ?c = Some (Flat ?F) \<or> (obj_get ?tab ?c = None \<and> ?F = [])"
    using inv n by (auto simp: spec_aggregate_def list_ex_iff filter_empty_conv)
  have p: "processItem t x = Some (setTab t ?ty ?tab')"
    by (rule processItem_eq [OF e c n])
  have d: "distinct (obj_keys (tabOf (setTab t ?ty ?tab') ty))" for ty
    using dist by (simp add: tabOf_setTab distinct_obj_set)
  have g: "obj_get (tabOf (setTab t ?ty ?tab') ty) k = spec_aggregate (items @ [x]) ty k" for ty k
  proof (cases "ty = ?ty")
    case False
    then show ?thesis using inv by (simp add: tabOf_setTab spec_aggregate_snoc_other)
  next
    case True
    have "obj_get ?tab' k = spec_aggregate (items @ [x]) ?ty k"
    proof (cases "k = ''Essentials''")
      case True
      then show ?thesis using e n
        by (simp add: obj_get_obj_set spec_aggregate_def)
    next
      case ne: False
      show ?thesis
      proof (cases "k = ?c")
        case True
        then show ?thesis using n
          by (simp add: obj_get_obj_set spec_aggregate_def list_ex_iff)
      next
        case False
        then show ?thesis using ne inv
          by (simp add: obj_get_obj_set spec_aggregate_def list_ex_iff)
      qed
    qed
    then show ?thesis using True by (simp add: tabOf_setTab)
  qed
  from p d g show ?thesis by blast
qed

lemma forEachM_processItem:
  assumes "\<forall>x \<in> set items. category x \<noteq> ''Essentials''"
  shows "\<exists>t. forEachM processItem items
               \<lparr>granted = [(''Essentials'', Flat [])], pregrant = [(''Essentials'', Flat [])]\<rparr>
             = Some t
           \<and> (\<forall>ty k. obj_get (tabOf t ty) k = spec_aggregate items ty k)
           \<and> (\<forall>ty. distinct (obj_keys (tabOf t ty)))"
  using assms
proof (induction items rule: rev_induct)
  case Nil
  have "obj_get (tabOf \<lparr>granted = [(''Essentials'', Flat [])],
                        pregrant = [(''Essentials'', Flat [])]\<rparr> ty) k
        = spec_aggregate [] ty k" for ty k
    by (cases ty) (simp_all add: spec_aggregate_def obj_get_def)
  moreover have "distinct (obj_keys (tabOf \<lparr>granted = [(''Essentials'', Flat [])],
                        pregrant = [(''Essentials'', Flat [])]\<rparr> ty))" for ty
    by (cases ty) (simp_all add: obj_keys_def)
  ultimately show ?case by simp
next
  case (snoc x items)
  then obtain t where t: "forEachM processItem items
               \<lparr>granted = [(''Essentials'', Flat [])], pregrant = [(''Essentials'', Flat [])]\<rparr>
             = Some t"
    and inv: "\<forall>ty k. obj_get (tabOf t ty) k = spec_aggregate items ty k"
    and dist: "\<forall>ty. distinct (obj_keys (tabOf t ty))"
    by auto
  have n: "category x \<noteq> ''Essentials''" using snoc.prems by simp
  from processItem_step [OF inv dist n] obtain t' where
    "processItem t x = Some t'"
    "\<forall>ty k. obj_get (tabOf t' ty) k = spec_aggregate (items @ [x]) ty k"
    "\<forall>ty. distinct (obj_keys (tabOf t' ty))"
    by blast
  then show ?case
    by (simp add: forEachM_append t)
qed


lemma organizeCategory_cases:
  "organizeCategory tab cat = tab
   \<or> (\<exists>xs. obj_get tab cat = Some (Flat xs)
           \<and> organizeCategory tab cat = obj_set tab cat (Grouped (organizeByDisambiguation xs)))"
  by (auto simp: organizeCategory_def Let_def split: option.splits bucket.splits)

lemma main_organized:
  "(case main (organizeByDisambiguation xs) of None \<Rightarrow> [] | Some ys \<Rightarrow> ys) =
     filter (\<lambda>i. \<not> includesStr (table_name i) ''_not_disambiguated''
                 \<and> \<not> includesStr (table_name i) ''_disambiguated'') xs"
  by (simp add: organizeByDisambiguation_eq)

lemma countBucket_Flat: "countBucket (Flat xs) = length xs"
  by (simp add: countBucket_def)

lemma countBucket_Grouped:
  "countBucket (Grouped g) =
     length (disambiguated g) + length (raw g)
     + length (case main g of None \<Rightarrow> [] | Some ys \<Rightarrow> ys)"
  by (simp add: countBucket_def split: option.splits)

lemma length_partition3:
  "length (filter (\<lambda>i. \<not> P i \<and> Q i) xs) + length (filter P xs)
   + length (filter (\<lambda>i. \<not> P i \<and> \<not> Q i) xs) = length xs"
  by (induction xs) auto

lemma countBucket_organized: "countBucket (Grouped (organizeByDisambiguation xs)) = length xs"
  unfolding countBucket_Grouped main_organized
  by (simp add: organizeByDisambiguation_eq length_partition3)

lemma bucketItems_Flat: "bucketItems (Flat xs) = xs"
  by (simp add: bucketItems_def)

lemma set_bucketItems_organized:
  "set (bucketItems (Grouped (organizeByDisambiguation xs))) = set xs"
proof -
  have "bucketItems (Grouped (organizeByDisambiguation xs)) =
          disambiguated (organizeByDisambiguation xs) @ raw (organizeByDisambiguation xs)
          @ (case main (organizeByDisambiguation xs) of None \<Rightarrow> [] | Some ys \<Rightarrow> ys)"
    by (simp add: bucketItems_def)
  then show ?thesis
    unfolding main_organized by (auto simp: organizeByDisambiguation_eq)
qed

lemma organizeCategory_count:
  "map_option countBucket (obj_get (organizeCategory tab cat) k)
   = map_option countBucket (obj_get tab k)"
  using organizeCategory_cases [of tab cat]
  by (auto simp: obj_get_obj_set countBucket_organized countBucket_Flat)

lemma organizeCategory_items:
  "map_option (\<lambda>b. set (bucketItems b)) (obj_get (organizeCategory tab cat) k)
   = map_option (\<lambda>b. set (bucketItems b)) (obj_get tab k)"
  using organizeCategory_cases [of tab cat]
  by (auto simp: obj_get_obj_set set_bucketItems_organized bucketItems_Flat)

lemma organizeCategory_keys: "obj_keys (organizeCategory tab cat) = obj_keys tab"
  using organizeCategory_cases [of tab cat]
  by (auto simp: obj_keys_obj_set obj_get_None_iff [symmetric])

lemma organizeTab_count:
  "map_option countBucket (obj_get (organizeTab tab) k) = map_option countBucket (obj_get tab k)"
  by (simp add: organizeTab_def organizeCategory_count)

lemma organizeTab_items:
  "map_option (\<lambda>b. set (bucketItems b)) (obj_get (organizeTab tab) k)
   = map_option (\<lambda>b. set (bucketItems b)) (obj_get tab k)"
  by (simp add: organizeTab_def organizeCategory_items)

lemma organizeTab_keys: "obj_keys (organizeTab tab) = obj_keys tab"
  by (simp add: organizeTab_def organizeCategory_keys)

lemma tabOf_organize_all:
  "tabOf (fold (\<lambda>type r. setTab r type (organizeTab (tabOf r type))) [Granted, Pregrant] t) ty
   = organizeTab (tabOf t ty)"
  by (cases ty) simp_all

lemma sum_list_entries_map_of:
  "distinct (map fst obj) \<Longrightarrow>
   sum_list (map (\<lambda>(c, b). f b) (filter (\<lambda>(c, b). P c) obj))
   = sum_list (map (\<lambda>k. f (the (map_of obj k))) (filter P (map fst obj)))"
proof (induction obj)
  case Nil
  show ?case by simp
next
  case (Cons e obj)
  obtain c b where e: "e = (c, b)" by (cases e)
  have d: "distinct (map fst obj)" and nc: "c \<notin> fst ` set obj"
    using Cons.prems by (simp_all add: e)
  have h: "map (\<lambda>k. f (the (if k = c then Some b else map_of obj k))) (filter P (map fst obj))
        = map (\<lambda>k. f (the (map_of obj k))) (filter P (map fst obj))"
    using nc by (intro map_cong) auto
  show ?case using Cons.IH [OF d]
    by (simp add: e h)
qed

lemma sum_list_entries:
  "distinct (obj_keys obj) \<Longrightarrow>
   sum_list (map (\<lambda>(c, b). f b) (filter (\<lambda>(c, b). P c) obj))
   = sum_list (map (\<lambda>k. f (the (obj_get obj k))) (filter P (obj_keys obj)))"
  unfolding obj_keys_def obj_get_def by (rule sum_list_entries_map_of)

lemma sum_list_indicator_absent:
  "k0 \<notin> set ks \<Longrightarrow>
   sum_list (map (\<lambda>k. if k0 = k then Suc (g k) else g k) ks) = sum_list (map g ks)"
  by (induction ks) auto

lemma sum_list_indicator:
  "distinct ks \<Longrightarrow> k0 \<in> set ks \<Longrightarrow>
   sum_list (map (\<lambda>k. if k0 = k then Suc (g k) else g k) ks) = Suc (sum_list (map g ks))"
  by (induction ks) (auto simp: sum_list_indicator_absent)

lemma count_by_category:
  assumes "distinct ks" and "\<forall>x \<in> set xs. P x \<longrightarrow> cat x \<in> set ks"
  shows "sum_list (map (\<lambda>k. length (filter (\<lambda>x. P x \<and> cat x = k) xs)) ks)
         = length (filter P xs)"
  using assms(2)
proof (induction xs)
  case Nil
  show ?case by simp
next
  case (Cons x xs)
  then have IH: "sum_list (map (\<lambda>k. length (filter (\<lambda>x. P x \<and> cat x = k) xs)) ks)
         = length (filter P xs)" by simp
  show ?case
  proof (cases "P x")
    case True
    then have m: "cat x \<in> set ks" using Cons.prems by simp
    have "sum_list (map (\<lambda>k. length (filter (\<lambda>y. P y \<and> cat y = k) (x # xs))) ks)
          = sum_list (map (\<lambda>k. if cat x = k
                                then Suc (length (filter (\<lambda>y. P y \<and> cat y = k) xs))
                                else length (filter (\<lambda>y. P y \<and> cat y = k) xs)) ks)"
      using True by (intro arg_cong [where f = sum_list] map_cong) auto
    also have "\<dots> = Suc (sum_list (map (\<lambda>k. length (filter (\<lambda>y. P y \<and> cat y = k) xs)) ks))"
      by (rule sum_list_indicator [OF assms(1) m])
    finally show ?thesis using True IH by simp
  next
    case False
    then show ?thesis using IH by simp
  qed
qed


lemma spec_aggregate_natural:
  "k \<noteq> ''Essentials'' \<Longrightarrow> spec_aggregate items ty k \<noteq> None \<Longrightarrow>
   spec_aggregate items ty k = Some (Flat (filter (\<lambda>x. type x = ty \<and> category x = k) items))"
  by (simp add: spec_aggregate_def split: if_splits)

lemma spec_aggregate_present:
  "x \<in> set items \<Longrightarrow> type x = ty \<Longrightarrow> spec_aggregate items ty (category x) \<noteq> None"
  by (auto simp: spec_aggregate_def list_ex_iff)

lemma organized_tab:
  assumes inv: "\<forall>k. obj_get tab0 k = spec_aggregate items ty k"
    and dist: "distinct (obj_keys tab0)"
    and n: "\<forall>x \<in> set items. category x \<noteq> ''Essentials''"
  shows "distinct (obj_keys (organizeTab tab0))"
    and "sum_list (map (\<lambda>(c, b). countBucket b)
           (filter (\<lambda>(c, b). c \<noteq> ''Essentials'') (organizeTab tab0)))
         = length (filter (\<lambda>x. type x = ty) items)"
    and "\<forall>x \<in> set items. type x = ty \<longrightarrow>
           category x \<in> set (obj_keys (organizeTab tab0)) \<and> category x \<noteq> ''Essentials''
           \<and> (\<forall>(c, b) \<in> set (organizeTab tab0). c \<noteq> ''Essentials'' \<longrightarrow>
                 (x \<in> set (bucketItems b) \<longleftrightarrow> c = category x))"
    and "obj_get (organizeTab tab0) ''Essentials'' =
           Some (Flat (filter (\<lambda>x. type x = ty \<and> List.member essentialFiles (table_name x))
                   items))"
proof -
  let ?tab = "organizeTab tab0"
  let ?F = "\<lambda>k. filter (\<lambda>x. type x = ty \<and> category x = k) items"
  show d: "distinct (obj_keys ?tab)" using dist by (simp add: organizeTab_keys)
  have nat: "obj_get tab0 k = Some (Flat (?F k))"
    if "k \<in> set (obj_keys tab0)" "k \<noteq> ''Essentials''" for k
  proof -
    have "obj_get tab0 k \<noteq> None" using that(1) by (simp add: obj_get_None_iff)
    then have "spec_aggregate items ty k \<noteq> None" using inv by simp
    from spec_aggregate_natural [OF that(2) this] show ?thesis using inv by simp
  qed
  have cnt: "countBucket (the (obj_get ?tab k)) = length (?F k)"
    if "k \<in> set (obj_keys tab0)" "k \<noteq> ''Essentials''" for k
    using organizeTab_count [of tab0 k] nat [OF that]
    by (cases "obj_get ?tab k") (simp_all add: countBucket_Flat)
  have its: "set (bucketItems b) = set (?F k)"
    if "obj_get ?tab k = Some b" "k \<noteq> ''Essentials''" for k b
  proof -
    have "k \<in> set (obj_keys tab0)"
      using that(1) obj_get_None_iff [of ?tab k] by (simp add: organizeTab_keys)
    from nat [OF this that(2)] organizeTab_items [of tab0 k] that(1) show ?thesis
      by (simp add: bucketItems_Flat)
  qed
  have key: "category x \<in> set (obj_keys tab0)" if "x \<in> set items" "type x = ty" for x
    using spec_aggregate_present [OF that] inv obj_get_None_iff [of tab0 "category x"] by auto
  have "sum_list (map (\<lambda>(c, b). countBucket b)
           (filter (\<lambda>(c, b). c \<noteq> ''Essentials'') ?tab))
        = sum_list (map (\<lambda>k. countBucket (the (obj_get ?tab k)))
            (filter (\<lambda>k. k \<noteq> ''Essentials'') (obj_keys ?tab)))"
    by (rule sum_list_entries [OF d])
  also have "\<dots> = sum_list (map (\<lambda>k. length (?F k))
            (filter (\<lambda>k. k \<noteq> ''Essentials'') (obj_keys tab0)))"
    unfolding organizeTab_keys
    by (intro arg_cong [where f = sum_list] map_cong refl) (simp add: cnt)
  also have "\<dots> = length (filter (\<lambda>x. type x = ty) items)"
  proof (rule count_by_category)
    show "distinct (filter (\<lambda>k. k \<noteq> ''Essentials'') (obj_keys tab0))"
      using dist by simp
    show "\<forall>x \<in> set items. type x = ty \<longrightarrow>
            category x \<in> set (filter (\<lambda>k. k \<noteq> ''Essentials'') (obj_keys tab0))"
      using key n by simp
  qed
  finally show "sum_list (map (\<lambda>(c, b). countBucket b)
           (filter (\<lambda>(c, b). c \<noteq> ''Essentials'') ?tab))
         = length (filter (\<lambda>x. type x = ty) items)" .
  show "\<forall>x \<in> set items. type x = ty \<longrightarrow>
           category x \<in> set (obj_keys ?tab) \<and> category x \<noteq> ''Essentials''
           \<and> (\<forall>(c, b) \<in> set ?tab. c \<noteq> ''Essentials'' \<longrightarrow>
                 (x \<in> set (bucketItems b) \<longleftrightarrow> c = category x))"
  proof (intro ballI impI conjI)
    fix x assume x: "x \<in> set items" "type x = ty"
    show "category x \<in> set (obj_keys ?tab)"
      using key [OF x] by (simp add: organizeTab_keys)
    show "category x \<noteq> ''Essentials''" using n x by simp
    fix e assume e: "e \<in> set ?tab"
    obtain c b where cb: "e = (c, b)" by (cases e)
    have g: "obj_get ?tab c = Some b"
      using obj_get_entry [OF d] e cb by simp
    have "c \<noteq> ''Essentials'' \<longrightarrow> (x \<in> set (bucketItems b) \<longleftrightarrow> c = category x)"
      using its [OF g] x by auto
    then show "case e of (c, b) \<Rightarrow>
            c \<noteq> ''Essentials'' \<longrightarrow> (x \<in> set (bucketItems b) \<longleftrightarrow> c = category x)"
      by (simp add: cb)
  qed
  show "obj_get ?tab ''Essentials'' =
           Some (Flat (filter (\<lambda>x. type x = ty \<and> List.member essentialFiles (table_name x))
                   items))"
    using inv by (simp add: obj_get_organizeTab_other spec_aggregate_def)
qed

lemma processData_lookup:
  "\<exists>t. processData rawData = Some t
     \<and> (\<forall>ty. \<exists>tab0. tabOf t ty = organizeTab tab0
            \<and> (\<forall>k. obj_get tab0 k = spec_aggregate (map categorizeItem rawData) ty k)
            \<and> distinct (obj_keys tab0))"
proof -
  let ?items = "map categorizeItem rawData"
  have n: "\<forall>x \<in> set ?items. category x \<noteq> ''Essentials''"
    by (auto simp: category_not_Essentials)
  from forEachM_processItem [OF n] obtain t0 where
    f: "forEachM processItem ?items
          \<lparr>granted = [(''Essentials'', Flat [])], pregrant = [(''Essentials'', Flat [])]\<rparr>
        = Some t0"
    and inv: "\<forall>ty k. obj_get (tabOf t0 ty) k = spec_aggregate ?items ty k"
    and dist: "\<forall>ty. distinct (obj_keys (tabOf t0 ty))"
    by blast
  let ?t = "fold (\<lambda>type r. setTab r type (organizeTab (tabOf r type))) [Granted, Pregrant] t0"
  have p: "processData rawData = Some ?t"
    by (simp only: processData_def Let_def f option.case)
  have "\<exists>tab0. tabOf ?t ty = organizeTab tab0
            \<and> (\<forall>k. obj_get tab0 k = spec_aggregate ?items ty k)
            \<and> distinct (obj_keys tab0)" for ty
    using tabOf_organize_all [of t0 ty] inv dist by blast
  with p show ?thesis by blast
qed

text \<open>
  C6. processData never fails. In the taxonomy it builds, for each patent type, the keys
  are distinct; the counts of the categories other than \<open>Essentials\<close> add up to the number
  of input items of that type; every classified item of that type has its category among
  the keys and is held by the bucket of a category other than \<open>Essentials\<close> exactly when
  that category is its own; and the bucket \<open>Essentials\<close> holds, in addition, the items of
  that type whose identifier is on the allow-list.
\<close>

theorem processData_partition:
  "\<exists>t. processData rawData = Some t
     \<and> (\<forall>ty. distinct (obj_keys (tabOf t ty))
          \<and> sum_list (map (\<lambda>(c, b). countBucket b)
                (filter (\<lambda>(c, b). c \<noteq> ''Essentials'') (tabOf t ty)))
              = length (filter (\<lambda>x. type x = ty) (map categorizeItem rawData))
          \<and> (\<forall>x \<in> set (map categorizeItem rawData). type x = ty \<longrightarrow>
                category x \<in> set (obj_keys (tabOf t ty)) \<and> category x \<noteq> ''Essentials''
                \<and> (\<forall>(c, b) \<in> set (tabOf t ty). c \<noteq> ''Essentials'' \<longrightarrow>
                      (x \<in> set (bucketItems b) \<longleftrightarrow> c = category x)))
          \<and> obj_get (tabOf t ty) ''Essentials'' =
              Some (Flat (filter (\<lambda>x. type x = ty
                                      \<and> List.member essentialFiles (table_name x))
                      (map categorizeItem rawData))))"
proof -
  let ?items = "map categorizeItem rawData"
  have n: "\<forall>x \<in> set ?items. category x \<noteq> ''Essentials''"
    by (auto simp: category_not_Essentials)
  from processData_lookup [of rawData] obtain t where
    p: "processData rawData = Some t"
    and l: "\<forall>ty. \<exists>tab0. tabOf t ty = organizeTab tab0
            \<and> (\<forall>k. obj_get tab0 k = spec_aggregate ?items ty k)
            \<and> distinct (obj_keys tab0)"
    by blast
  have "distinct (obj_keys (tabOf t ty))
          \<and> sum_list (map (\<lambda>(c, b). countBucket b)
                (filter (\<lambda>(c, b). c \<noteq> ''Essentials'') (tabOf t ty)))
              = length (filter (\<lambda>x. type x = ty) ?items)
          \<and> (\<forall>x \<in> set ?items. type x = ty \<longrightarrow>
                category x \<in> set (obj_keys (tabOf t ty)) \<and> category x \<noteq> ''Essentials''
                \<and> (\<forall>(c, b) \<in> set (tabOf t ty). c \<noteq> ''Essentials'' \<longrightarrow>
                      (x \<in> set (bucketItems b) \<longleftrightarrow> c = category x)))
          \<and> obj_get (tabOf t ty) ''Essentials'' =
              Some (Flat (filter (\<lambda>x. type x = ty
                                      \<and> List.member essentialFiles (table_name x)) ?items))"
    for ty
  proof -
    from l obtain tab0 where tab: "tabOf t ty = organizeTab tab0"
      and i: "\<forall>k. obj_get tab0 k = spec_aggregate ?items ty k"
      and d: "distinct (obj_keys tab0)"
      by blast
    note o = organized_tab [OF i d n]
    show ?thesis unfolding tab using o by (intro conjI)
  qed
  with p show ?thesis by blast
qed

theorem processData_partition_witness:
  "\<exists>t. processData exampleData = Some t
     \<and> sum_list (map (\<lambda>(c, b). countBucket b)
           (filter (\<lambda>(c, b). c \<noteq> ''Essentials'') (tabOf t Granted))) = 9
     \<and> sum_list (map (\<lambda>(c, b). countBucket b)
           (filter (\<lambda>(c, b). c \<noteq> ''Essentials'') (tabOf t Pregrant))) = 1"
proof -
  from processData_partition [of exampleData] obtain t where
    p: "processData exampleData = Some t"
    and g: "sum_list (map (\<lambda>(c, b). countBucket b)
              (filter (\<lambda>(c, b). c \<noteq> ''Essentials'') (tabOf t Granted)))
            = length (filter (\<lambda>x. type x = Granted) (map categorizeItem exampleData))"
    and q: "sum_list (map (\<lambda>(c, b). countBucket b)
              (filter (\<lambda>(c, b). c \<noteq> ''Essentials'') (tabOf t Pregrant)))
            = length (filter (\<lambda>x. type x = Pregrant) (map categorizeItem exampleData))"
    by blast
  have eg: "length (filter (\<lambda>x. type x = Granted) (map categorizeItem exampleData)) = 9"
    by code_simp
  have eq: "length (filter (\<lambda>x. type x = Pregrant) (map categorizeItem exampleData)) = 1"
    by code_simp
  from p g q show ?thesis unfolding eg eq by blast
qed

section \<open>Taxonomies built by processData\<close>

text \<open>
  The Content bucket of a taxonomy that processData has built is an array, or absent
  when no item of the patent type has a content type, and the years on its items are
  strings of four digits.
\<close>

lemma processData_Content_years:
  assumes "processData rawData = Some t"
  shows "\<exists>content.
           (obj_get (tabOf t ty) ''Content'' = Some (Flat content)
            \<or> (obj_get (tabOf t ty) ''Content'' = None \<and> content = []))
           \<and> (\<forall>item \<in> set content. \<forall>y. year item = Some y
                  \<longrightarrow> length y = 4 \<and> list_all isDigit y)"
proof -
  let ?items = "map categorizeItem rawData"
  let ?content = "filter (\<lambda>x. type x = ty \<and> category x = ''Content'') ?items"
  from processData_lookup [of rawData] assms obtain tab0 where
    tab: "tabOf t ty = organizeTab tab0"
    and i: "\<forall>k. obj_get tab0 k = spec_aggregate ?items ty k"
    by auto
  have g: "obj_get (tabOf t ty) ''Content'' = spec_aggregate ?items ty ''Content''"
    unfolding tab using i by (simp add: obj_get_organizeTab_other)
  have c: "obj_get (tabOf t ty) ''Content'' = Some (Flat ?content)
           \<or> (obj_get (tabOf t ty) ''Content'' = None \<and> ?content = [])"
    unfolding g by (auto simp: spec_aggregate_def list_ex_iff filter_empty_conv)
  have y: "\<forall>item \<in> set ?content. \<forall>y. year item = Some y
             \<longrightarrow> length y = 4 \<and> list_all isDigit y"
    by (auto dest: year_categorizeItem_digits)
  from c y show ?thesis by blast
qed

end
